theory Spec2Isabelle
  imports Main "HOL-Library.Sublist" "HOL-Library.AList"
begin

section \<open>Python values the optimizer works with\<close>

text \<open>
  The program is run by Python 3 on a POSIX system whose locale encoding is UTF-8. Paths,
  file names, patterns and the contents of files are byte strings (\<open>string\<close>, a list
  of 8-bit characters); the text that is read from a file opened in text mode is a
  string of characters (\<open>pystr\<close>, below). Exceptions are values of \<open>py_error\<close>; a
  function of the source that may raise returns \<open>py_error + 'a\<close> with \<open>Inl\<close> for the
  exception.
\<close>

datatype py_error =
    TypeError
  | NameError
  | AttributeError
  | ValueError
  | KeyError
  | IOError
  | NotADirectoryError
  | ShutilError
  | OSError
  | UnicodeDecodeError
  | UnicodeEncodeError
  | OptimizerError string

subsection \<open>The parts of \<open>posixpath\<close> and \<open>str\<close> that the source calls\<close>

text \<open>
  \<open>os.path.splitext\<close>: the extension starts at the last dot of the last path component,
  unless that component has only dots before it. \<open>tail\<close> holds (reversed) the
  characters after the last dot or slash; the character in front of them decides.
\<close>

definition splitext :: "string \<Rightarrow> string \<times> string" where
  "splitext p =
     (let tail = takeWhile (\<lambda>c. c \<noteq> CHR ''.'' \<and> c \<noteq> CHR ''/'') (rev p);
          rest = dropWhile (\<lambda>c. c \<noteq> CHR ''.'' \<and> c \<noteq> CHR ''/'') (rev p)
      in case rest of
           [] \<Rightarrow> (p, [])
         | c # front \<Rightarrow>
             if c = CHR ''.'' \<and> list_ex (\<lambda>x. x \<noteq> CHR ''.'') (takeWhile (\<lambda>x. x \<noteq> CHR ''/'') front)
             then (rev front, CHR ''.'' # rev tail)
             else (p, []))"

text \<open>\<open>os.path.join\<close> with two arguments.\<close>

definition os_path_join :: "string \<Rightarrow> string \<Rightarrow> string" where
  "os_path_join a b =
     (if take 1 b = ''/'' then b
      else if a = [] \<or> last a = CHR ''/'' then a @ b
      else a @ ''/'' @ b)"

text \<open>\<open>str.split(sep)\<close> for a one-character separator: empty pieces are kept.\<close>

fun str_split :: "char \<Rightarrow> string \<Rightarrow> string list" where
  "str_split sep [] = [[]]"
| "str_split sep (c # cs) =
     (if c = sep then [] # str_split sep cs
      else (case str_split sep cs of
              [] \<Rightarrow> [[c]]
            | w # ws \<Rightarrow> (c # w) # ws))"

text \<open>\<open>sep.join(parts)\<close>.\<close>

fun str_join :: "'a list \<Rightarrow> 'a list list \<Rightarrow> 'a list" where
  "str_join sep [] = []"
| "str_join sep [w] = w"
| "str_join sep (w # ws) = w @ sep @ str_join sep ws"

text \<open>
  \<open>os.path.normpath\<close>: the loop over the components, with \<open>new_comps\<close> as accumulator,
  then the leading slashes put back (two slashes stay two, three or more become one).
\<close>

fun normpath_comps :: "bool \<Rightarrow> string list \<Rightarrow> string list \<Rightarrow> string list" where
  "normpath_comps initial_slashes new_comps [] = new_comps"
| "normpath_comps initial_slashes new_comps (part # comps) =
     (if part = [] \<or> part = ''.'' then normpath_comps initial_slashes new_comps comps
      else if part \<noteq> ''..'' \<or> (\<not> initial_slashes \<and> new_comps = [])
              \<or> (new_comps \<noteq> [] \<and> last new_comps = ''..'')
           then normpath_comps initial_slashes (new_comps @ [part]) comps
      else if new_comps \<noteq> [] then normpath_comps initial_slashes (butlast new_comps) comps
      else normpath_comps initial_slashes new_comps comps)"

definition normpath :: "string \<Rightarrow> string" where
  "normpath path =
     (if path = [] then ''.''
      else
        let initial_slashes =
              (if take 1 path = ''/'' then
                 (if take 2 path = ''//'' \<and> take 3 path \<noteq> ''///'' then 2 else 1)
               else (0::nat));
            comps = normpath_comps (initial_slashes \<noteq> 0) [] (str_split CHR ''/'' path);
            joined = replicate initial_slashes CHR ''/'' @ str_join ''/'' comps
        in if joined = [] then ''.'' else joined)"

text \<open>\<open>os.path.abspath\<close>; the current directory is a parameter.\<close>

definition abspath :: "string \<Rightarrow> string \<Rightarrow> string" where
  "abspath cwd path = normpath (if take 1 path = ''/'' then path else os_path_join cwd path)"

fun commonprefix :: "'a list \<Rightarrow> 'a list \<Rightarrow> 'a list" where
  "commonprefix (x # xs) (y # ys) = (if x = y then x # commonprefix xs ys else [])"
| "commonprefix _ _ = []"

text \<open>\<open>os.path.join(*rel_list)\<close>, the fold of the two-argument join.\<close>

definition join_all :: "string list \<Rightarrow> string" where
  "join_all parts = (case parts of [] \<Rightarrow> [] | a # bs \<Rightarrow> foldl os_path_join a bs)"

text \<open>\<open>os.path.relpath(path, start)\<close>; raises \<open>ValueError\<close> on an empty path.\<close>

definition relpath :: "string \<Rightarrow> string \<Rightarrow> string \<Rightarrow> py_error + string" where
  "relpath cwd path start =
     (if path = [] then Inl ValueError
      else
        let start_list = filter (\<lambda>x. x \<noteq> []) (str_split CHR ''/'' (abspath cwd start));
            path_list = filter (\<lambda>x. x \<noteq> []) (str_split CHR ''/'' (abspath cwd path));
            i = length (commonprefix start_list path_list);
            rel_list = replicate (length start_list - i) ''..'' @ drop i path_list
        in if rel_list = [] then Inr ''.'' else Inr (join_all rel_list))"

text \<open>
  \<open>str.replace(old, new)\<close>: all non-overlapping occurrences, found from the left. With
  an empty \<open>old\<close> Python puts \<open>new\<close> in front of every character and at the end.
\<close>

function str_replace :: "'a list \<Rightarrow> 'a list \<Rightarrow> 'a list \<Rightarrow> 'a list" where
  "str_replace s old new =
     (if old = [] then new @ concat (map (\<lambda>c. c # new) s)
      else if s = [] then []
      else if prefix old s then new @ str_replace (drop (length old) s) old new
      else hd s # str_replace (tl s) old new)"
  by pat_completeness auto
termination
  by (relation "measure (\<lambda>(s, old, new). length s)") (auto simp: neq_Nil_conv)

declare str_replace.simps [simp del]

subsection \<open>Text files\<close>

text \<open>
  A character of a Python string is kept as the bytes of its UTF-8 encoding; a byte that
  is part of no well-formed UTF-8 sequence becomes, where Python decodes with the
  \<open>surrogateescape\<close> handler (file names), a lone surrogate that stands for that byte.
\<close>

datatype pychar = UChar string | Surrogate char

type_synonym pystr = "pychar list"

definition byte_in :: "char \<Rightarrow> nat \<Rightarrow> nat \<Rightarrow> bool" where
  "byte_in b lo hi = (lo \<le> of_char b \<and> (of_char b :: nat) \<le> hi)"

text \<open>
  The length of the well-formed UTF-8 sequence at the head of a byte string, 0 if there
  is none: one byte 00..7F; two bytes C2..DF 80..BF; three bytes E0 A0..BF 80..BF,
  E1..EC 80..BF 80..BF, ED 80..9F 80..BF, EE..EF 80..BF 80..BF; four bytes
  F0 90..BF 80..BF 80..BF, F1..F3 80..BF 80..BF 80..BF, F4 80..8F 80..BF 80..BF.
\<close>

definition utf8_len :: "string \<Rightarrow> nat" where
  "utf8_len bs =
     (case bs of
        [] \<Rightarrow> 0
      | b0 # r \<Rightarrow>
          if byte_in b0 0x00 0x7F then 1
          else if byte_in b0 0xC2 0xDF then
            (case r of
               b1 # r1 \<Rightarrow> if byte_in b1 0x80 0xBF then 2 else 0
             | [] \<Rightarrow> 0)
          else if byte_in b0 0xE0 0xEF then
            (case r of
               b1 # b2 # r2 \<Rightarrow>
                 if byte_in b1 (if of_char b0 = (0xE0::nat) then 0xA0 else 0x80)
                               (if of_char b0 = (0xED::nat) then 0x9F else 0xBF)
                    \<and> byte_in b2 0x80 0xBF
                 then 3 else 0
             | _ \<Rightarrow> 0)
          else if byte_in b0 0xF0 0xF4 then
            (case r of
               b1 # b2 # b3 # r3 \<Rightarrow>
                 if byte_in b1 (if of_char b0 = (0xF0::nat) then 0x90 else 0x80)
                               (if of_char b0 = (0xF4::nat) then 0x8F else 0xBF)
                    \<and> byte_in b2 0x80 0xBF \<and> byte_in b3 0x80 0xBF
                 then 4 else 0
             | _ \<Rightarrow> 0)
          else 0)"

text \<open>
  \<open>os.fsdecode\<close>, which gives the file names that \<open>os.walk\<close> yields their characters:
  UTF-8 with \<open>surrogateescape\<close>. \<open>os.fsencode\<close> gives the bytes back.
\<close>

function fsdecode :: "string \<Rightarrow> pystr" where
  "fsdecode [] = []"
| "fsdecode (b # bs) =
     (if utf8_len (b # bs) = 0 then Surrogate b # fsdecode bs
      else UChar (take (utf8_len (b # bs)) (b # bs)) # fsdecode (drop (utf8_len (b # bs)) (b # bs)))"
  by pat_completeness auto
termination
  by (relation "measure length") auto

declare fsdecode.simps [simp del]

fun char_bytes :: "pychar \<Rightarrow> string" where
  "char_bytes (UChar bs) = bs"
| "char_bytes (Surrogate b) = [b]"

definition fsencode :: "pystr \<Rightarrow> string" where
  "fsencode s = concat (map char_bytes s)"

fun is_surrogate :: "pychar \<Rightarrow> bool" where
  "is_surrogate (UChar bs) = False"
| "is_surrogate (Surrogate b) = True"

text \<open>
  The codec of a file opened in text mode is strict: a byte that is part of no
  well-formed sequence raises \<open>UnicodeDecodeError\<close> when the file is read, and a lone
  surrogate raises \<open>UnicodeEncodeError\<close> when it is written.
\<close>

definition decode :: "string \<Rightarrow> py_error + pystr" where
  "decode bs = (if list_ex is_surrogate (fsdecode bs) then Inl UnicodeDecodeError else Inr (fsdecode bs))"

definition encode :: "pystr \<Rightarrow> py_error + string" where
  "encode s = (if list_ex is_surrogate s then Inl UnicodeEncodeError else Inr (fsencode s))"

text \<open>
  Universal newlines, the mode of \<open>open(src, 'r')\<close>: on reading, a carriage return
  followed by a line feed, and a carriage return alone, become a line feed.
\<close>

definition LF :: pychar where
  "LF = UChar [CHR 0x0A]"

definition CR :: pychar where
  "CR = UChar [CHR 0x0D]"

fun translate_newlines :: "pystr \<Rightarrow> pystr" where
  "translate_newlines [] = []"
| "translate_newlines [c] = (if c = CR then [LF] else [c])"
| "translate_newlines (c # d # s) =
     (if c = CR \<and> d = LF then LF # translate_newlines s
      else if c = CR then LF # translate_newlines (d # s)
      else c # translate_newlines (d # s))"

text \<open>
  The lines of a text, each with its line feed; a last line without line feed is a line
  as well.
\<close>

fun split_lines :: "pystr \<Rightarrow> pystr list" where
  "split_lines [] = []"
| "split_lines (c # cs) =
     (if c = LF then [c] # split_lines cs
      else (case split_lines cs of
              [] \<Rightarrow> [[c]]
            | l # ls \<Rightarrow> (c # l) # ls))"

text \<open>
  Iterating over a file opened with \<open>open(src, 'r')\<close> yields the lines of its decoded
  text after the translation of the line ends. The model decodes the whole file before
  the first line is yielded (Python decodes it in chunks; what has been written to the
  destination when the exception is raised is not part of the result).
\<close>

definition file_lines :: "string \<Rightarrow> py_error + pystr list" where
  "file_lines content =
     (case decode content of
        Inl e \<Rightarrow> Inl e
      | Inr s \<Rightarrow> Inr (split_lines (translate_newlines s)))"

section \<open>Fingerprints\<close>

text \<open>
  A hasher object has a state and the two methods \<open>hashfile\<close> calls. A file object open
  for reading is the list of bytes not read yet; \<open>read(n)\<close> returns the next \<open>n\<close> bytes,
  fewer at the end of the file.
\<close>

record 'h hasher =
  h_state :: 'h
  h_update :: "'h \<Rightarrow> string \<Rightarrow> 'h"
  h_hexdigest :: "'h \<Rightarrow> string"

definition update :: "'h hasher \<Rightarrow> string \<Rightarrow> 'h hasher" where
  "update hasher buf = hasher\<lparr>h_state := h_update hasher (h_state hasher) buf\<rparr>"

definition hexdigest :: "'h hasher \<Rightarrow> string" where
  "hexdigest hasher = h_hexdigest hasher (h_state hasher)"

definition file_read :: "string \<Rightarrow> nat \<Rightarrow> string \<times> string" where
  "file_read afile n = (take n afile, drop n afile)"

function hashfile_loop :: "string \<Rightarrow> string \<Rightarrow> 'h hasher \<Rightarrow> nat \<Rightarrow> string" where
  "hashfile_loop buf afile hasher blocksize =
     (if length buf > 0
      then (let hasher' = update hasher buf;
                (buf', afile') = file_read afile blocksize
            in hashfile_loop buf' afile' hasher' blocksize)
      else hexdigest hasher)"
  by pat_completeness auto
termination
  by (relation "measure (\<lambda>(buf, afile, hasher, blocksize). length buf + length afile)")
     (auto simp: file_read_def min_def)

declare hashfile_loop.simps [simp del]

definition hashfile :: "string \<Rightarrow> 'h hasher \<Rightarrow> nat \<Rightarrow> string" where
  "hashfile afile hasher blocksize =
     (let (buf, afile') = file_read afile blocksize
      in hashfile_loop buf afile' hasher blocksize)"

definition default_blocksize :: nat where
  "default_blocksize = 65536"

definition convert_filename :: "string \<Rightarrow> string \<Rightarrow> string" where
  "convert_filename filename filehash =
     (let ftup = splitext filename in fst ftup @ ''.'' @ filehash @ snd ftup)"

text \<open>
  \<open>hashlib.sha256()\<close>: a fresh hasher. The library guarantees that successive updates
  act as one update with the concatenation, so the state is the bytes fed so far and the
  digest function of the finished message is a parameter.
\<close>

definition sha256 :: "(string \<Rightarrow> string) \<Rightarrow> string hasher" where
  "sha256 digest = \<lparr>h_state = [], h_update = (\<lambda>st buf. st @ buf), h_hexdigest = digest\<rparr>"

section \<open>The file system and \<open>fnmatch\<close>\<close>

text \<open>
  A directory as \<open>os.walk\<close> sees it: its subdirectories with their names, and the names
  of its files, both in the order in which the operating system lists them. Files are
  opened through a separate table from path to contents; a path that is not in the
  table cannot be opened.
\<close>

datatype dirtree = Dir "(string \<times> dirtree) list" "string list"

type_synonym walk_entry = "string \<times> string list \<times> string list"

text \<open>
  \<open>os.walk(top)\<close>, top-down: the triple of a directory comes first, then the walks of
  the subdirectories named in \<open>dirnames\<close>. No loop of the source removes a name from
  \<open>dirnames\<close>, so every listed subdirectory is walked.
\<close>

fun os_walk :: "string \<Rightarrow> dirtree \<Rightarrow> walk_entry list" where
  "os_walk dirpath (Dir ds fnames) =
     (dirpath, map fst ds, fnames) #
     concat (map (\<lambda>dt. os_walk (os_path_join dirpath (fst dt)) (snd dt)) ds)"

text \<open>A top that is no directory, or cannot be listed, yields nothing: \<open>os.walk\<close> ignores the error.\<close>

definition os_walk_top :: "string \<Rightarrow> dirtree option \<Rightarrow> walk_entry list" where
  "os_walk_top path root = (case root of None \<Rightarrow> [] | Some t \<Rightarrow> os_walk path t)"

text \<open>
  \<open>fnmatch.fnmatch(name, pat)\<close> on a POSIX system: the pattern is translated into
  tokens (\<open>*\<close>, \<open>?\<close>, a character class \<open>[seq]\<close> or \<open>[!seq]\<close>, a literal character) that
  must match the whole name. A \<open>[\<close> without closing bracket is a literal.
\<close>

datatype glob_tok = Star | Quest | Lit char | Class bool "(char \<times> char) list"

fun class_items :: "string \<Rightarrow> (char \<times> char) list" where
  "class_items (a # m # b # rest) =
     (if m = CHR ''-'' then (a, b) # class_items rest
      else (a, a) # class_items (m # b # rest))"
| "class_items (a # rest) = (a, a) # class_items rest"
| "class_items [] = []"

definition class_end :: "string \<Rightarrow> nat option" where
  "class_end pat =
     (let j0 = (if take 1 pat = ''!'' then 1 else 0);
          j1 = (if take 1 (drop j0 pat) = '']'' then j0 + 1 else j0);
          j = j1 + length (takeWhile (\<lambda>c. c \<noteq> CHR '']'') (drop j1 pat))
      in if j \<ge> length pat then None else Some j)"

function translate :: "string \<Rightarrow> glob_tok list" where
  "translate [] = []"
| "translate (c # pat) =
     (if c = CHR ''*'' then Star # translate pat
      else if c = CHR ''?'' then Quest # translate pat
      else if c = CHR ''['' then
        (case class_end pat of
           None \<Rightarrow> Lit c # translate pat
         | Some j \<Rightarrow>
             (let stuff = take j pat
              in (if take 1 stuff = ''!'' then Class True (class_items (drop 1 stuff))
                  else Class False (class_items stuff))
                 # translate (drop (Suc j) pat)))
      else Lit c # translate pat)"
  by pat_completeness auto
termination
  by (relation "measure length") auto

definition in_class :: "char \<Rightarrow> (char \<times> char) list \<Rightarrow> bool" where
  "in_class x items =
     list_ex (\<lambda>(lo, hi). (of_char lo :: nat) \<le> of_char x \<and> (of_char x :: nat) \<le> of_char hi) items"

fun glob_match :: "glob_tok list \<Rightarrow> string \<Rightarrow> bool" where
  "glob_match [] s = (s = [])"
| "glob_match (Star # ts) s =
     (glob_match ts s \<or> (case s of [] \<Rightarrow> False | x # cs \<Rightarrow> glob_match (Star # ts) cs))"
| "glob_match (Quest # ts) s = (case s of [] \<Rightarrow> False | x # cs \<Rightarrow> glob_match ts cs)"
| "glob_match (Lit c # ts) s = (case s of [] \<Rightarrow> False | x # cs \<Rightarrow> x = c \<and> glob_match ts cs)"
| "glob_match (Class neg items # ts) s =
     (case s of [] \<Rightarrow> False | x # cs \<Rightarrow> (in_class x items \<noteq> neg) \<and> glob_match ts cs)"

definition fnmatch :: "string \<Rightarrow> string \<Rightarrow> bool" where
  "fnmatch name pat = glob_match (translate pat) name"

section \<open>The optimizer\<close>

text \<open>
  The attributes of an \<open>Optimizer\<close> object. \<open>assets_map\<close> is a dictionary from the
  original path of an asset to its record; the record is empty (\<open>None\<close>) after
  indexing and holds \<open>new_filename\<close> after fingerprinting. The dictionary keeps its keys
  in the order of their first insertion, as Python does from version 3.7 on (an older
  interpreter iterates in an order of its own, which the code does not fix either).
\<close>

record optimizer =
  source_dir :: string
  output_dir :: string
  destination_bucket :: string
  subdirs :: "string list"
  files :: "string list"
  assets_map :: "(string \<times> string option) list"
  rewritables :: "string list"
  exclude :: "string list"
  aws_access_key_id :: "string option"
  aws_secret_access_key :: "string option"
  skip_s3_upload :: bool

definition assets_ext :: "string list" where
  "assets_ext = [''.css'', ''.svg'', ''.ttf'', ''.woff'', ''.woff2'', ''.otf'', ''.eot'',
                 ''.png'', ''.jpg'', ''.jpeg'', ''.gif'', ''.js'']"

definition rewriteables_ext :: "string list" where
  "rewriteables_ext = [''.html'', ''.htm'', ''.js'', ''.css'']"

text \<open>
  The object as the assignments of the constructor (lines 95 to 104) leave it, for a
  source directory, an output directory, a bucket and exclusion patterns, with no
  credentials.
\<close>

definition new_optimizer :: "string \<Rightarrow> string \<Rightarrow> string \<Rightarrow> string list \<Rightarrow> optimizer" where
  "new_optimizer src out bucket excl =
     \<lparr>source_dir = src, output_dir = out, destination_bucket = bucket, subdirs = [], files = [],
      assets_map = [], rewritables = [], exclude = excl, aws_access_key_id = None,
      aws_secret_access_key = None, skip_s3_upload = False\<rparr>"

subsection \<open>Indexing\<close>

text \<open>
  \<open>True in [fnmatch(relpath, exclude) for exclude in self._exclude]\<close>; the matcher is a
  parameter, \<open>fnmatch\<close> above in every run of the program.
\<close>

definition excluded :: "(string \<Rightarrow> string \<Rightarrow> bool) \<Rightarrow> string list \<Rightarrow> string \<Rightarrow> bool" where
  "excluded fnm excl rp = (True \<in> set (map (\<lambda>pat. fnm rp pat) excl))"

fun index_dirnames ::
  "(string \<Rightarrow> string \<Rightarrow> bool) \<Rightarrow> string \<Rightarrow> string \<Rightarrow> string list \<Rightarrow> optimizer \<Rightarrow> py_error + optimizer" where
  "index_dirnames fnm cwd dirpath [] self = Inr self"
| "index_dirnames fnm cwd dirpath (d # ds) self =
     (case relpath cwd (os_path_join dirpath d) (source_dir self) of
        Inl e \<Rightarrow> Inl e
      | Inr rp \<Rightarrow>
          if excluded fnm (exclude self) rp then index_dirnames fnm cwd dirpath ds self
          else index_dirnames fnm cwd dirpath ds (self\<lparr>subdirs := subdirs self @ [rp]\<rparr>))"

definition index_file :: "string \<Rightarrow> string \<Rightarrow> optimizer \<Rightarrow> optimizer" where
  "index_file rp f self =
     (let self1 = self\<lparr>files := files self @ [rp]\<rparr>;
          ext = snd (splitext f);
          self2 = (if ext \<in> set assets_ext
                   then self1\<lparr>assets_map := AList.update rp None (assets_map self1)\<rparr>
                   else self1)
      in if ext \<in> set rewriteables_ext
         then self2\<lparr>rewritables := rewritables self2 @ [rp]\<rparr>
         else self2)"

fun index_fnames ::
  "(string \<Rightarrow> string \<Rightarrow> bool) \<Rightarrow> string \<Rightarrow> string \<Rightarrow> string list \<Rightarrow> optimizer \<Rightarrow> py_error + optimizer" where
  "index_fnames fnm cwd dirpath [] self = Inr self"
| "index_fnames fnm cwd dirpath (f # fs) self =
     (case relpath cwd (os_path_join dirpath f) (source_dir self) of
        Inl e \<Rightarrow> Inl e
      | Inr rp \<Rightarrow>
          if excluded fnm (exclude self) rp then index_fnames fnm cwd dirpath fs self
          else index_fnames fnm cwd dirpath fs (index_file rp f self))"

fun index_walk ::
  "(string \<Rightarrow> string \<Rightarrow> bool) \<Rightarrow> string \<Rightarrow> walk_entry list \<Rightarrow> optimizer \<Rightarrow> py_error + optimizer" where
  "index_walk fnm cwd [] self = Inr self"
| "index_walk fnm cwd ((dirpath, dirnames, fnames) # rest) self =
     (case index_dirnames fnm cwd dirpath dirnames self of
        Inl e \<Rightarrow> Inl e
      | Inr self1 \<Rightarrow>
          (case index_fnames fnm cwd dirpath fnames self1 of
             Inl e \<Rightarrow> Inl e
           | Inr self2 \<Rightarrow> index_walk fnm cwd rest self2))"

definition index_source_dir ::
  "(string \<Rightarrow> string \<Rightarrow> bool) \<Rightarrow> string \<Rightarrow> dirtree option \<Rightarrow> optimizer \<Rightarrow> py_error + optimizer" where
  "index_source_dir fnm cwd root self =
     index_walk fnm cwd (os_walk_top (source_dir self) root) self"

text \<open>No path that an exclusion pattern matches is in one of the four indexes.\<close>

definition no_excluded_indexed :: "(string \<Rightarrow> string \<Rightarrow> bool) \<Rightarrow> optimizer \<Rightarrow> bool" where
  "no_excluded_indexed fnm self =
     (\<forall>p \<in> set (subdirs self) \<union> set (files self) \<union> fst ` set (assets_map self)
            \<union> set (rewritables self).
        \<not> excluded fnm (exclude self) p)"

text \<open>
  The relative paths of the files of a walk that are not excluded and have an asset
  extension, in the order of the walk.
\<close>

definition asset_relpaths ::
  "(string \<Rightarrow> string \<Rightarrow> bool) \<Rightarrow> string \<Rightarrow> string \<Rightarrow> string list \<Rightarrow> walk_entry list \<Rightarrow> string list" where
  "asset_relpaths fnm cwd src excl w =
     concat (map (\<lambda>entry.
       concat (map (\<lambda>f. case relpath cwd (os_path_join (fst entry) f) src of
                            Inl e \<Rightarrow> []
                          | Inr rp \<Rightarrow>
                              if \<not> excluded fnm excl rp \<and> snd (splitext f) \<in> set assets_ext
                              then [rp] else [])
                   (snd (snd entry)))) w)"

subsection \<open>Fingerprinting\<close>

text \<open>
  The loop over \<open>self._assets_map.keys()\<close>. \<open>fs\<close> is the table of readable files;
  \<open>open\<close> raises \<open>IOError\<close> on a path that is not in it.
\<close>

fun calculate_fingerprints_loop ::
  "(string \<Rightarrow> string) \<Rightarrow> (string \<rightharpoonup> string) \<Rightarrow> string list \<Rightarrow> optimizer \<Rightarrow> py_error + optimizer" where
  "calculate_fingerprints_loop digest fs [] self = Inr self"
| "calculate_fingerprints_loop digest fs (fname # rest) self =
     (case fs (os_path_join (source_dir self) fname) of
        None \<Rightarrow> Inl IOError
      | Some f \<Rightarrow>
          (let filehash = hashfile f (sha256 digest) default_blocksize
           in calculate_fingerprints_loop digest fs rest
                (self\<lparr>assets_map :=
                   AList.update fname (Some (convert_filename fname filehash)) (assets_map self)\<rparr>)))"

definition calculate_fingerprints ::
  "(string \<Rightarrow> string) \<Rightarrow> (string \<rightharpoonup> string) \<Rightarrow> optimizer \<Rightarrow> py_error + optimizer" where
  "calculate_fingerprints digest fs self =
     calculate_fingerprints_loop digest fs (map fst (assets_map self)) self"

text \<open>\<open>self._assets_map[asset]['new_filename']\<close>; a missing key raises \<open>KeyError\<close>.\<close>

definition new_filename :: "optimizer \<Rightarrow> string \<Rightarrow> py_error + string" where
  "new_filename self asset =
     (case map_of (assets_map self) asset of
        None \<Rightarrow> Inl KeyError
      | Some None \<Rightarrow> Inl KeyError
      | Some (Some n) \<Rightarrow> Inr n)"

subsection \<open>Writing the files\<close>

text \<open>
  The file system that \<open>_write_files\<close> reads and writes: the contents of the files by
  path, the paths that name a directory, and the identity of the file that a path names or
  would name once it is created (what \<open>os.path.samefile\<close> compares, the device and the
  inode). Two paths of the same identity name one file, so writing to a path changes the
  contents under every path of the same identity. A file can be opened for writing when
  its directory exists and the path is no directory itself; opening truncates it.
\<close>

record filesystem =
  fs_files :: "string \<rightharpoonup> string"
  fs_isdir :: "string \<Rightarrow> bool"
  fs_ident :: "string \<Rightarrow> string"

definition fs_write :: "filesystem \<Rightarrow> string \<Rightarrow> string \<Rightarrow> filesystem" where
  "fs_write fs dest data =
     fs\<lparr>fs_files := (\<lambda>p. if fs_ident fs p = fs_ident fs dest then Some data else fs_files fs p)\<rparr>"

text \<open>\<open>os.path.dirname\<close>: up to the last slash, without trailing slashes unless there is nothing else.\<close>

definition dirname :: "string \<Rightarrow> string" where
  "dirname p =
     (let head = rev (dropWhile (\<lambda>c. c \<noteq> CHR ''/'') (rev p))
      in if head \<noteq> [] \<and> head \<noteq> replicate (length head) CHR ''/''
         then rev (dropWhile (\<lambda>c. c = CHR ''/'') (rev head))
         else head)"

definition open_w :: "filesystem \<Rightarrow> string \<Rightarrow> py_error + filesystem" where
  "open_w fs dest =
     (if fs_isdir fs (dirname dest) \<and> \<not> fs_isdir fs dest
      then Inr (fs_write fs dest [])
      else Inl IOError)"

text \<open>
  \<open>os.makedirs\<close>: the directory is created with every ancestor that is missing;
  \<open>OSError\<close> when the path exists already or an ancestor is a file.
\<close>

definition ancestors :: "string \<Rightarrow> string list" where
  "ancestors p = filter (\<lambda>d. d \<noteq> []) (map (str_join ''/'') (prefixes (str_split CHR ''/'' p)))"

definition makedirs :: "filesystem \<Rightarrow> string \<Rightarrow> py_error + filesystem" where
  "makedirs fs name =
     (if fs_isdir fs name \<or> list_ex (\<lambda>d. fs_files fs d \<noteq> None) (ancestors name) then Inl OSError
      else Inr (fs\<lparr>fs_isdir := (\<lambda>p. fs_isdir fs p \<or> fs_ident fs p \<in> fs_ident fs ` set (ancestors name))\<rparr>))"

text \<open>\<open>_write_dirs\<close>: every indexed subdirectory is created under the output directory if it is not there.\<close>

fun write_dirs_loop :: "optimizer \<Rightarrow> string list \<Rightarrow> filesystem \<Rightarrow> py_error + filesystem" where
  "write_dirs_loop self [] fs = Inr fs"
| "write_dirs_loop self (reldir # rest) fs =
     (let absdir = os_path_join (output_dir self) reldir
      in if \<not> fs_isdir fs absdir
         then (case makedirs fs absdir of
                 Inl e \<Rightarrow> Inl e
               | Inr fs1 \<Rightarrow> write_dirs_loop self rest fs1)
         else write_dirs_loop self rest fs)"

definition write_dirs :: "optimizer \<Rightarrow> filesystem \<Rightarrow> py_error + filesystem" where
  "write_dirs self fs = write_dirs_loop self (subdirs self) fs"

text \<open>
  \<open>shutil.copyfile\<close>: raises \<open>SameFileError\<close> when source and destination exist and are
  the same file (\<open>os.path.samefile\<close>), then opens the source for reading and the
  destination for writing, and copies the bytes.
\<close>

definition copyfile :: "filesystem \<Rightarrow> string \<Rightarrow> string \<Rightarrow> py_error + filesystem" where
  "copyfile fs src dest =
     (if (fs_files fs src \<noteq> None \<or> fs_isdir fs src) \<and> (fs_files fs dest \<noteq> None \<or> fs_isdir fs dest)
         \<and> fs_ident fs src = fs_ident fs dest
      then Inl ShutilError
      else
        (case fs_files fs src of
           None \<Rightarrow> Inl IOError
         | Some unread \<Rightarrow>
             (case open_w fs dest of
                Inl e \<Rightarrow> Inl e
              | Inr fs1 \<Rightarrow>
                  (case fs_files fs1 src of
                     None \<Rightarrow> Inl IOError
                   | Some content \<Rightarrow> Inr (fs_write fs1 dest content)))))"

text \<open>
  The loop \<open>for asset in assets\<close> on one line: each asset's path is replaced by its new
  name, in the order of \<open>assets\<close>, every replacement acting on the result of the one
  before. The line is a string of characters, and so are the path and the new name,
  which come from \<open>os.walk\<close>.
\<close>

fun rewrite_line :: "optimizer \<Rightarrow> string list \<Rightarrow> pystr \<Rightarrow> py_error + pystr" where
  "rewrite_line self [] line = Inr line"
| "rewrite_line self (asset # assets) line =
     (case new_filename self asset of
        Inl e \<Rightarrow> Inl e
      | Inr n \<Rightarrow> rewrite_line self assets (str_replace line (fsdecode asset) (fsdecode n)))"

text \<open>
  The loop \<open>for line in f_src\<close>: every line is rewritten, then encoded by
  \<open>f_dst.write\<close>; the bytes written for each line, in order. On a POSIX system writing
  does not translate the line feed.
\<close>

fun rewrite_lines :: "optimizer \<Rightarrow> string list \<Rightarrow> pystr list \<Rightarrow> py_error + string list" where
  "rewrite_lines self assets [] = Inr []"
| "rewrite_lines self assets (line # lines) =
     (case rewrite_line self assets line of
        Inl e \<Rightarrow> Inl e
      | Inr l \<Rightarrow>
          (case encode l of
             Inl e \<Rightarrow> Inl e
           | Inr bs \<Rightarrow>
               (case rewrite_lines self assets lines of
                  Inl e \<Rightarrow> Inl e
                | Inr ls \<Rightarrow> Inr (bs # ls))))"

text \<open>The destination name of a file: its new name if it is an asset, its own name if not.\<close>

definition dst_filename :: "optimizer \<Rightarrow> string \<Rightarrow> py_error + string" where
  "dst_filename self src_filename =
     (if src_filename \<in> set (map fst (assets_map self)) then new_filename self src_filename
      else Inr src_filename)"

text \<open>
  One iteration of the loop of \<open>_write_files\<close>. A rewritable file is opened for reading,
  then the destination is opened (and truncated), then the lines are read, rewritten and
  written; any other file is copied. When source and destination are one file, the
  source is empty by the time it is read.
\<close>

definition write_file :: "optimizer \<Rightarrow> filesystem \<Rightarrow> string \<Rightarrow> py_error + filesystem" where
  "write_file self fs src_filename =
     (case dst_filename self src_filename of
        Inl e \<Rightarrow> Inl e
      | Inr dst \<Rightarrow>
          (let src = os_path_join (source_dir self) src_filename;
               dest = os_path_join (output_dir self) dst
           in if src_filename \<in> set (rewritables self) then
                (case fs_files fs src of
                   None \<Rightarrow> Inl IOError
                 | Some unread \<Rightarrow>
                     (case open_w fs dest of
                        Inl e \<Rightarrow> Inl e
                      | Inr fs1 \<Rightarrow>
                          (case fs_files fs1 src of
                             None \<Rightarrow> Inl IOError
                           | Some content \<Rightarrow>
                               (case file_lines content of
                                  Inl e \<Rightarrow> Inl e
                                | Inr lines \<Rightarrow>
                                    (case rewrite_lines self (map fst (assets_map self)) lines of
                                       Inl e \<Rightarrow> Inl e
                                     | Inr out \<Rightarrow> Inr (fs_write fs1 dest (concat out)))))))
              else copyfile fs src dest))"

fun write_files_loop :: "optimizer \<Rightarrow> string list \<Rightarrow> filesystem \<Rightarrow> py_error + filesystem" where
  "write_files_loop self [] fs = Inr fs"
| "write_files_loop self (src_filename # rest) fs =
     (case write_file self fs src_filename of
        Inl e \<Rightarrow> Inl e
      | Inr fs1 \<Rightarrow> write_files_loop self rest fs1)"

definition write_files :: "optimizer \<Rightarrow> filesystem \<Rightarrow> py_error + filesystem" where
  "write_files self fs = write_files_loop self (files self) fs"

text \<open>The contents of a path after \<open>_write_files\<close> has run; \<open>None\<close> when it raised or wrote no such file.\<close>

definition written :: "optimizer \<Rightarrow> filesystem \<Rightarrow> string \<Rightarrow> string option" where
  "written self fs path = (case write_files self fs of Inl e \<Rightarrow> None | Inr fs' \<Rightarrow> fs_files fs' path)"

subsection \<open>A line as text with references to assets\<close>

text \<open>
  The specification speaks of the occurrences of the asset paths in a line and of the
  text around them. A line is described by its segments: literal text, and references
  to assets by their paths. \<open>render f segs\<close> is the line in which every reference to
  an asset \<open>a\<close> reads \<open>f a\<close>; the source line is \<open>render fsdecode segs\<close>.
\<close>

datatype segment = Text pystr | Ref string

fun render :: "(string \<Rightarrow> pystr) \<Rightarrow> segment list \<Rightarrow> pystr" where
  "render f [] = []"
| "render f (Text t # segs) = t @ render f segs"
| "render f (Ref a # segs) = f a @ render f segs"

text \<open>
  What a reference to \<open>a\<close> reads once the assets of \<open>replaced\<close> have been substituted:
  the new name of \<open>a\<close> if \<open>a\<close> is one of them, its path if not.
\<close>

definition stage :: "optimizer \<Rightarrow> string list \<Rightarrow> string \<Rightarrow> pystr" where
  "stage self replaced a =
     (if a \<in> set replaced
      then (case new_filename self a of Inr n \<Rightarrow> fsdecode n | Inl e \<Rightarrow> fsdecode a)
      else fsdecode a)"

text \<open>The pieces of a line between the references to the asset \<open>b\<close>.\<close>

fun pieces :: "string \<Rightarrow> (string \<Rightarrow> pystr) \<Rightarrow> segment list \<Rightarrow> pystr list" where
  "pieces b f [] = [[]]"
| "pieces b f (Text t # segs) = (t @ hd (pieces b f segs)) # tl (pieces b f segs)"
| "pieces b f (Ref a # segs) =
     (if a = b then [] # pieces b f segs
      else (f a @ hd (pieces b f segs)) # tl (pieces b f segs))"

text \<open>
  In the string made of the pieces \<open>ps\<close> with \<open>old\<close> between them, \<open>old\<close> occurs between
  the pieces and nowhere else, for a search from the left: no occurrence begins inside a
  piece that another piece follows, and none lies in the last piece.
\<close>

definition only_between :: "'a list \<Rightarrow> 'a list list \<Rightarrow> bool" where
  "only_between old ps =
     (old \<noteq> [] \<and> list_all (\<lambda>p. \<not> sublist old (p @ butlast old)) (butlast ps)
      \<and> \<not> sublist old (last ps))"

text \<open>
  The references of a line are separated for the assets \<open>b # rest\<close>, substituted in this
  order after those of \<open>replaced\<close>, when the path of \<open>b\<close> occurs exactly where the line
  refers to \<open>b\<close>, in the line as the earlier substitutions have left it, and so on for
  \<open>rest\<close>.
\<close>

fun separated :: "optimizer \<Rightarrow> string list \<Rightarrow> string list \<Rightarrow> segment list \<Rightarrow> bool" where
  "separated self replaced [] segs = True"
| "separated self replaced (b # rest) segs =
     (only_between (fsdecode b) (pieces b (stage self replaced) segs)
      \<and> separated self (replaced @ [b]) rest segs)"

text \<open>
  The new name of an asset as the fingerprinting stage derives it from the contents of
  the file, and the substitution of one asset in a line.
\<close>

definition fingerprinted_name :: "(string \<Rightarrow> string) \<Rightarrow> (string \<rightharpoonup> string) \<Rightarrow> string \<Rightarrow> string \<Rightarrow> string" where
  "fingerprinted_name digest fs src a =
     (case fs (os_path_join src a) of
        Some content \<Rightarrow> convert_filename a (digest content)
      | None \<Rightarrow> a)"

definition substitute :: "(string \<Rightarrow> string) \<Rightarrow> (string \<rightharpoonup> string) \<Rightarrow> string \<Rightarrow> pystr \<Rightarrow> string \<Rightarrow> pystr" where
  "substitute digest fs src line a =
     str_replace line (fsdecode a) (fsdecode (fingerprinted_name digest fs src a))"

subsection \<open>Uploading\<close>

text \<open>
  A bucket: its objects by key, each with its data and the headers it was stored with,
  and the requests that changed it, in order: the keys and headers of the uploads, and
  the keys given to \<open>delete_keys\<close>. \<open>bucket.list()\<close> yields the keys of the objects.
\<close>

record s3_object =
  obj_data :: string
  obj_headers :: "(string \<times> string) list"

record s3_bucket =
  objects :: "(string \<times> s3_object) list"
  put_requests :: "(string \<times> (string \<times> string) list) list"
  delete_requests :: "string list"

definition is_asset :: "string \<Rightarrow> bool" where
  "is_asset f = (snd (splitext f) \<in> set assets_ext)"

definition cache_headers :: "bool \<Rightarrow> (string \<times> string) list" where
  "cache_headers asset =
     [(''Cache-Control'', if asset then ''public, max-age=31556926'' else ''no-cache, max-age=0'')]"

text \<open>\<open>k.set_contents_from_filename(abspath, replace=True, headers=headers)\<close> with \<open>k.key = relpath\<close>.\<close>

definition set_contents_from_filename ::
  "filesystem \<Rightarrow> s3_bucket \<Rightarrow> string \<Rightarrow> string \<Rightarrow> (string \<times> string) list \<Rightarrow> py_error + s3_bucket" where
  "set_contents_from_filename fs bucket key path headers =
     (case fs_files fs path of
        None \<Rightarrow> Inl IOError
      | Some content \<Rightarrow>
          Inr (bucket\<lparr>objects := AList.update key \<lparr>obj_data = content, obj_headers = headers\<rparr> (objects bucket),
                      put_requests := put_requests bucket @ [(key, headers)]\<rparr>))"

text \<open>
  The body of the loop over \<open>fnames\<close> in \<open>_upload_to_bucket\<close>, on the bucket and the
  list \<open>to_be_deleted\<close>. \<open>list.remove\<close> takes out the first occurrence; its error on
  a missing element is swallowed.
\<close>

definition upload_file ::
  "optimizer \<Rightarrow> string \<Rightarrow> filesystem \<Rightarrow> string \<Rightarrow> string \<Rightarrow> s3_bucket \<times> string list
     \<Rightarrow> py_error + s3_bucket \<times> string list" where
  "upload_file self cwd fs dirpath f st =
     (let bucket = fst st;
          to_be_deleted = snd st;
          path = os_path_join dirpath f
      in case relpath cwd path (output_dir self) of
           Inl e \<Rightarrow> Inl e
         | Inr key \<Rightarrow>
             (let to_be_deleted1 = remove1 key to_be_deleted;
                  asset = is_asset f;
                  k = map_of (objects bucket) key
              in if k = None \<or> \<not> asset then
                   (case set_contents_from_filename fs bucket key path (cache_headers asset) of
                      Inl e \<Rightarrow> Inl e
                    | Inr bucket1 \<Rightarrow> Inr (bucket1, to_be_deleted1))
                 else Inr (bucket, to_be_deleted1)))"

fun upload_fnames ::
  "optimizer \<Rightarrow> string \<Rightarrow> filesystem \<Rightarrow> string \<Rightarrow> string list \<Rightarrow> s3_bucket \<times> string list
     \<Rightarrow> py_error + s3_bucket \<times> string list" where
  "upload_fnames self cwd fs dirpath [] st = Inr st"
| "upload_fnames self cwd fs dirpath (f # fnames) st =
     (case upload_file self cwd fs dirpath f st of
        Inl e \<Rightarrow> Inl e
      | Inr st1 \<Rightarrow> upload_fnames self cwd fs dirpath fnames st1)"

fun upload_walk ::
  "optimizer \<Rightarrow> string \<Rightarrow> filesystem \<Rightarrow> walk_entry list \<Rightarrow> s3_bucket \<times> string list
     \<Rightarrow> py_error + s3_bucket \<times> string list" where
  "upload_walk self cwd fs [] st = Inr st"
| "upload_walk self cwd fs ((dirpath, dirnames, fnames) # rest) st =
     (case upload_fnames self cwd fs dirpath fnames st of
        Inl e \<Rightarrow> Inl e
      | Inr st1 \<Rightarrow> upload_walk self cwd fs rest st1)"

text \<open>\<open>bucket.delete_keys(keys)\<close>.\<close>

definition delete_keys :: "s3_bucket \<Rightarrow> string list \<Rightarrow> s3_bucket" where
  "delete_keys bucket keys =
     bucket\<lparr>objects := filter (\<lambda>kv. fst kv \<notin> set keys) (objects bucket),
            delete_requests := delete_requests bucket @ keys\<rparr>"

text \<open>
  \<open>_upload_to_bucket\<close>. \<open>s3\<close> holds the buckets of the account by name; a bucket that is
  not there makes \<open>get_bucket\<close> raise a boto error, which becomes an \<open>OptimizerError\<close>.
  \<open>out_root\<close> is the output directory as \<open>os.walk\<close> sees it.
\<close>

definition upload_to_bucket ::
  "optimizer \<Rightarrow> string \<Rightarrow> filesystem \<Rightarrow> dirtree option \<Rightarrow> (string \<rightharpoonup> s3_bucket) \<Rightarrow> py_error + s3_bucket" where
  "upload_to_bucket self cwd fs out_root s3 =
     (case s3 (destination_bucket self) of
        None \<Rightarrow> Inl (OptimizerError ''Error uploading to S3'')
      | Some bucket \<Rightarrow>
          (let to_be_deleted = map fst (objects bucket)
           in case upload_walk self cwd fs (os_walk_top (output_dir self) out_root)
                     (bucket, to_be_deleted) of
                Inl e \<Rightarrow> Inl e
              | Inr st \<Rightarrow> Inr (delete_keys (fst st) (snd st))))"

text \<open>
  The two nested loops are one loop over the files of the walk, each with the path of
  its directory.
\<close>

definition walk_files :: "walk_entry list \<Rightarrow> (string \<times> string) list" where
  "walk_files w = concat (map (\<lambda>entry. map (\<lambda>f. (fst entry, f)) (snd (snd entry))) w)"

fun upload_all ::
  "optimizer \<Rightarrow> string \<Rightarrow> filesystem \<Rightarrow> (string \<times> string) list \<Rightarrow> s3_bucket \<times> string list
     \<Rightarrow> py_error + s3_bucket \<times> string list" where
  "upload_all self cwd fs [] st = Inr st"
| "upload_all self cwd fs (df # rest) st =
     (case upload_file self cwd fs (fst df) (snd df) st of
        Inl e \<Rightarrow> Inl e
      | Inr st1 \<Rightarrow> upload_all self cwd fs rest st1)"

text \<open>
  The files with their keys, in the order of the walk: the path of each file relative
  to the output directory, and its name.
\<close>

definition keyed_files :: "string \<Rightarrow> string \<Rightarrow> (string \<times> string) list \<Rightarrow> (string \<times> string) list" where
  "keyed_files cwd out dfs =
     concat (map (\<lambda>df. case relpath cwd (os_path_join (fst df) (snd df)) out of
                          Inl e \<Rightarrow> []
                        | Inr key \<Rightarrow> [(key, snd df)]) dfs)"

definition local_files :: "optimizer \<Rightarrow> string \<Rightarrow> dirtree option \<Rightarrow> (string \<times> string) list" where
  "local_files self cwd out_root =
     keyed_files cwd (output_dir self) (walk_files (os_walk_top (output_dir self) out_root))"

text \<open>
  The uploads as the specification words them: of the local files, every non-asset, and
  every asset whose key is not among the remote keys; an asset with the long-lived
  cache header, a non-asset with the no-cache header.
\<close>

definition spec_uploads ::
  "string set \<Rightarrow> (string \<times> string) list \<Rightarrow> (string \<times> (string \<times> string) list) list" where
  "spec_uploads remote kfs =
     map (\<lambda>kf. (fst kf, [(''Cache-Control'',
                    if is_asset (snd kf) then ''public, max-age=31556926'' else ''no-cache, max-age=0'')]))
       (filter (\<lambda>kf. if is_asset (snd kf) then fst kf \<notin> remote else True) kfs)"

section \<open>Construction and the command line\<close>

text \<open>
  The values a caller passes to the constructor: \<open>None\<close>, a string, a boolean, a list
  of strings. A call has positional arguments and keyword arguments.
\<close>

datatype pyval = PNone | PStr string | PBool bool | PList "string list"

text \<open>
  The parameters of \<open>Optimizer.__init__\<close> after \<open>self\<close>, each with its default
  (\<open>None\<close> here: no default, the argument is required).
\<close>

definition init_params :: "(string \<times> pyval option) list" where
  "init_params =
     [(''source_dir'', None), (''destination_bucket'', None), (''exclude'', Some (PList [])),
      (''output_dir'', Some PNone), (''aws_access_key_id'', Some PNone),
      (''aws_secret_access_key'', Some PNone)]"

text \<open>
  Python's binding of the arguments of a call to the parameters: \<open>TypeError\<close> on too
  many positional arguments, on a keyword that is no parameter or is bound already, and
  on a required parameter left unbound.
\<close>

fun bind_keywords ::
  "string list \<Rightarrow> (string \<times> pyval) list \<Rightarrow> (string \<times> pyval) list \<Rightarrow> py_error + (string \<times> pyval) list" where
  "bind_keywords names bound [] = Inr bound"
| "bind_keywords names bound ((k, v) # kws) =
     (if k \<in> set names \<and> k \<notin> fst ` set bound
      then bind_keywords names (bound @ [(k, v)]) kws
      else Inl TypeError)"

fun fill_defaults ::
  "(string \<times> pyval option) list \<Rightarrow> (string \<times> pyval) list \<Rightarrow> py_error + (string \<times> pyval) list" where
  "fill_defaults [] bound = Inr bound"
| "fill_defaults ((n, d) # ps) bound =
     (if n \<in> fst ` set bound then fill_defaults ps bound
      else (case d of
              None \<Rightarrow> Inl TypeError
            | Some v \<Rightarrow> fill_defaults ps (bound @ [(n, v)])))"

definition bind_args ::
  "(string \<times> pyval option) list \<Rightarrow> pyval list \<Rightarrow> (string \<times> pyval) list \<Rightarrow> py_error + (string \<times> pyval) list" where
  "bind_args params pos kws =
     (if length pos > length params then Inl TypeError
      else (case bind_keywords (map fst params) (zip (map fst params) pos) kws of
              Inl e \<Rightarrow> Inl e
            | Inr bound \<Rightarrow> fill_defaults params bound))"

text \<open>
  What the constructor sees of the process and the operating system: whether the
  module's \<open>logger\<close> has been set (\<open>main\<close> sets it; it is \<open>None\<close> before), and the
  answers of \<open>os.path.isdir\<close>, \<open>os.access\<close>, \<open>os.makedirs\<close> (false: \<open>os.error\<close>) and
  \<open>mkdtemp\<close> (\<open>None\<close>: it raises). \<open>os.path.isdir\<close> takes a path or a file descriptor,
  and \<open>False\<close> and \<open>True\<close> are the descriptors 0 and 1: \<open>fd_isdir\<close> tells whether they
  are open on a directory.
\<close>

record os_env =
  logger_set :: bool
  isdir :: "string \<Rightarrow> bool"
  fd_isdir :: "bool \<Rightarrow> bool"
  access_r :: "string \<Rightarrow> bool"
  access_w :: "string \<Rightarrow> bool"
  makedirs_ok :: "string \<Rightarrow> bool"
  mkdtemp :: "string option"

text \<open>
  The path given to \<open>os.makedirs\<close> and \<open>os.access\<close> must be a string: they raise
  \<open>TypeError\<close> on \<open>None\<close>, on a list and on a file descriptor. For the output directory
  one of the two is called whatever \<open>os.path.isdir\<close> has answered, so every value that
  is no string raises \<open>TypeError\<close>.
\<close>

definition as_path :: "pyval \<Rightarrow> py_error + string" where
  "as_path v = (case v of PStr s \<Rightarrow> Inr s | _ \<Rightarrow> Inl TypeError)"

definition truthy :: "pyval \<Rightarrow> bool" where
  "truthy v = (case v of PNone \<Rightarrow> False | PStr s \<Rightarrow> s \<noteq> [] | PBool b \<Rightarrow> b | PList l \<Rightarrow> l \<noteq> [])"

text \<open>
  The names bound at module level (imports, assignments, \<open>def\<close> and \<open>class\<close>). A name
  that is not local to a function is looked up here; no builtin is called
  \<open>skip_s3_upload\<close>.
\<close>

definition module_globals :: "string list" where
  "module_globals =
     [''print_function'', ''sys'', ''argparse'', ''os'', ''logging'', ''fileinput'',
      ''connect_s3'', ''Key'', ''BotoClientError'', ''BotoServerError'', ''Requirement'',
      ''resource_filename'', ''require'', ''sha256'', ''copyfile'', ''fnmatch'', ''mkdtemp'',
      ''__author__'', ''__email__'', ''__copyright__'', ''__license__'', ''__version__'',
      ''logger'', ''hashfile'', ''convert_filename'', ''OptimizerError'', ''Optimizer'', ''main'']"

text \<open>
  Reading a name inside \<open>__init__\<close>: a parameter gives its argument, a module-level name
  its value (none of them is read as a value here, so \<open>None\<close> stands for it), any
  other name raises \<open>NameError\<close>.
\<close>

definition read_name :: "(string \<times> pyval) list \<Rightarrow> string \<Rightarrow> py_error + pyval" where
  "read_name locals n =
     (case map_of locals n of
        Some v \<Rightarrow> Inr v
      | None \<Rightarrow> if n \<in> set module_globals then Inr PNone else Inl NameError)"

text \<open>The value of a parameter in the body; every parameter is bound when the body runs.\<close>

definition local_var :: "(string \<times> pyval) list \<Rightarrow> string \<Rightarrow> pyval" where
  "local_var locals n = (case map_of locals n of Some v \<Rightarrow> v | None \<Rightarrow> PNone)"

text \<open>
  Lines 74 to 78: the checks of the source directory. On \<open>True\<close> and \<open>False\<close>
  \<open>os.path.isdir\<close> answers for the file descriptor, and \<open>os.access\<close> raises
  \<open>TypeError\<close>; on \<open>None\<close> and on a list \<open>os.path.isdir\<close> raises \<open>TypeError\<close>.
\<close>

definition init_source_dir :: "os_env \<Rightarrow> pyval \<Rightarrow> py_error + string" where
  "init_source_dir env source_dir_arg =
     (case source_dir_arg of
        PStr sd \<Rightarrow>
          if \<not> isdir env sd then Inl (OptimizerError (sd @ '' is not a valid path''))
          else if \<not> access_r env sd then Inl (OptimizerError (sd @ '' is not a readable dir''))
          else Inr sd
      | PBool b \<Rightarrow>
          if \<not> fd_isdir env b
          then Inl (OptimizerError ((if b then ''True'' else ''False'') @ '' is not a valid path''))
          else Inl TypeError
      | _ \<Rightarrow> Inl TypeError)"

text \<open>Lines 80 to 90: the output directory, given or temporary.\<close>

definition init_output_dir :: "os_env \<Rightarrow> pyval \<Rightarrow> py_error + string" where
  "init_output_dir env output_dir_arg =
     (if output_dir_arg \<noteq> PNone then
        (case as_path output_dir_arg of
           Inl e \<Rightarrow> Inl e
         | Inr od \<Rightarrow>
             if \<not> isdir env od \<and> \<not> makedirs_ok env od
             then Inl (OptimizerError (od @ '' is not a directory and cannot be created''))
             else if \<not> access_w env od
             then Inl (OptimizerError (od @ '' is not a writable dir''))
             else Inr od)
      else (case mkdtemp env of None \<Rightarrow> Inl IOError | Some d \<Rightarrow> Inr d))"

definition opt_str :: "pyval \<Rightarrow> string option" where
  "opt_str v = (case v of PStr s \<Rightarrow> Some s | _ \<Rightarrow> None)"

definition str_list :: "pyval \<Rightarrow> string list" where
  "str_list v = (case v of PList l \<Rightarrow> l | _ \<Rightarrow> [])"

text \<open>The body of \<open>__init__\<close>, lines 72 to 107, on the bound arguments.\<close>

definition init_body :: "os_env \<Rightarrow> (string \<times> pyval) list \<Rightarrow> py_error + optimizer" where
  "init_body env locals =
     (if \<not> logger_set env then Inl AttributeError
      else
        (case init_source_dir env (local_var locals ''source_dir'') of
           Inl e \<Rightarrow> Inl e
         | Inr sd \<Rightarrow>
             (case init_output_dir env (local_var locals ''output_dir'') of
                Inl e \<Rightarrow> Inl e
              | Inr od \<Rightarrow>
                  (case read_name locals ''skip_s3_upload'' of
                     Inl e \<Rightarrow> Inl e
                   | Inr skip \<Rightarrow>
                       Inr \<lparr>source_dir = sd, output_dir = od,
                            destination_bucket =
                              (case local_var locals ''destination_bucket'' of
                                 PStr b \<Rightarrow> b | _ \<Rightarrow> []),
                            subdirs = [], files = [], assets_map = [], rewritables = [],
                            exclude = str_list (local_var locals ''exclude''),
                            aws_access_key_id = opt_str (local_var locals ''aws_access_key_id''),
                            aws_secret_access_key =
                              opt_str (local_var locals ''aws_secret_access_key''),
                            skip_s3_upload = truthy skip\<rparr>))))"

text \<open>\<open>Optimizer(...)\<close>: bind the arguments, then run the body.\<close>

definition Optimizer_init :: "os_env \<Rightarrow> pyval list \<Rightarrow> (string \<times> pyval) list \<Rightarrow> py_error + optimizer" where
  "Optimizer_init env pos kws =
     (case bind_args init_params pos kws of
        Inl e \<Rightarrow> Inl e
      | Inr locals \<Rightarrow> init_body env locals)"

text \<open>The arguments \<open>main\<close> has parsed from the command line, and its call on line 325.\<close>

record parsed_args =
  arg_source_dir :: string
  arg_destination_bucket :: string
  arg_exclude :: "string list"
  arg_output_dir :: "string option"
  arg_aws_access_key_id :: "string option"
  arg_aws_secret_access_key :: "string option"
  arg_skip_s3_upload :: bool

definition opt_val :: "string option \<Rightarrow> pyval" where
  "opt_val x = (case x of None \<Rightarrow> PNone | Some s \<Rightarrow> PStr s)"

definition main_positional :: "parsed_args \<Rightarrow> pyval list" where
  "main_positional args = [PStr (arg_source_dir args), PStr (arg_destination_bucket args)]"

definition main_keywords :: "parsed_args \<Rightarrow> (string \<times> pyval) list" where
  "main_keywords args =
     [(''exclude'', PList (arg_exclude args)),
      (''output_dir'', opt_val (arg_output_dir args)),
      (''aws_access_key_id'', opt_val (arg_aws_access_key_id args)),
      (''aws_secret_access_key'', opt_val (arg_aws_secret_access_key args)),
      (''skip_s3_upload'', PBool (arg_skip_s3_upload args))]"

text \<open>
  Lines 324 to 328 of \<open>main\<close>, after the logger is set: construct, run, and exit with
  status 1 on any exception. \<open>run\<close> stands for the method \<open>Optimizer.run\<close>; the result
  is the exit status.
\<close>

definition main :: "os_env \<Rightarrow> (optimizer \<Rightarrow> py_error + unit) \<Rightarrow> parsed_args \<Rightarrow> nat" where
  "main env run args =
     (case Optimizer_init (env\<lparr>logger_set := True\<rparr>) (main_positional args) (main_keywords args) of
        Inl e \<Rightarrow> 1
      | Inr opt \<Rightarrow> (case run opt of Inl e \<Rightarrow> 1 | Inr u \<Rightarrow> 0))"

section \<open>Example runs\<close>

text \<open>
  The digest function in the examples: the SHA-256 digests of the two contents the
  examples use, \<open>A\<close> and \<open>B\<close>, in hexadecimal; for any other content sixty-four
  zeros stand in, and no example reads them.
\<close>

definition sha256_table :: "string \<Rightarrow> string" where
  "sha256_table content =
     (if content = ''A'' then ''559aead08264d5795d3909718cdd05abd49572e84fe55590eef31a88a08fdffd''
      else if content = ''B'' then ''df7e70e5021544f4834bbee64a9e3789febc4be81470df629cad6ddb03320a5c''
      else replicate 64 CHR ''0'')"

text \<open>
  A site with the single file \<open>app.css\<close> of content \<open>A\<close>, after indexing and after
  fingerprinting; and a site with \<open>a.css\<close> and \<open>b.css\<close>, both of content \<open>A\<close>.
\<close>

definition app_fs :: "string \<rightharpoonup> string" where
  "app_fs = [''site/app.css'' \<mapsto> ''A'']"

definition app_indexed :: optimizer where
  "app_indexed = (new_optimizer ''site'' ''out'' ''example.com'' [])
     \<lparr>files := [''app.css''], assets_map := [(''app.css'', None)], rewritables := [''app.css'']\<rparr>"

definition app_fingerprinted :: optimizer where
  "app_fingerprinted = app_indexed
     \<lparr>assets_map := [(''app.css'',
        Some ''app.559aead08264d5795d3909718cdd05abd49572e84fe55590eef31a88a08fdffd.css'')]\<rparr>"

definition twins_fs :: "string \<rightharpoonup> string" where
  "twins_fs = [''site/a.css'' \<mapsto> ''A'', ''site/b.css'' \<mapsto> ''A'']"

definition twins_indexed :: optimizer where
  "twins_indexed = (new_optimizer ''site'' ''out'' ''example.com'' [])
     \<lparr>files := [''a.css'', ''b.css''], assets_map := [(''a.css'', None), (''b.css'', None)],
      rewritables := [''a.css'', ''b.css'']\<rparr>"

definition twins_fingerprinted :: optimizer where
  "twins_fingerprinted = twins_indexed
     \<lparr>assets_map :=
        [(''a.css'', Some ''a.559aead08264d5795d3909718cdd05abd49572e84fe55590eef31a88a08fdffd.css''),
         (''b.css'', Some ''b.559aead08264d5795d3909718cdd05abd49572e84fe55590eef31a88a08fdffd.css'')]\<rparr>"

text \<open>
  A site whose directory \<open>private\<close> holds \<open>secret.html\<close>, indexed with the exclusion
  pattern \<open>private\<close>; the process runs in \<open>/home/u\<close>.
\<close>

definition private_tree :: dirtree where
  "private_tree = Dir [(''private'', Dir [] [''secret.html''])] [''index.html'']"

definition private_indexed :: optimizer where
  "private_indexed = (new_optimizer ''site'' ''out'' ''example.com'' [''private''])
     \<lparr>files := [''index.html'', ''private/secret.html''],
      rewritables := [''index.html'', ''private/secret.html'']\<rparr>"

text \<open>
  The file systems of the examples: the process runs in \<open>/home/u\<close>, and a path names the
  file or the directory at its absolute normal form (there are no links).
\<close>

definition posix_fs :: "(string \<times> string) list \<Rightarrow> string list \<Rightarrow> filesystem" where
  "posix_fs contents dirs =
     \<lparr>fs_files = (\<lambda>p. map_of contents (abspath ''/home/u'' p)),
      fs_isdir = (\<lambda>p. abspath ''/home/u'' p \<in> set dirs),
      fs_ident = abspath ''/home/u''\<rparr>"

definition private_fs :: filesystem where
  "private_fs = posix_fs [(''/home/u/site/index.html'', ''home\<newline>''),
                          (''/home/u/site/private/secret.html'', ''secret\<newline>'')]
                         [''/home/u/site'', ''/home/u/site/private'', ''/home/u/out'']"

text \<open>
  Three environments with the logger set: one where no path is a directory, one where
  \<open>site\<close> is a directory that cannot be read, one where \<open>site\<close> is a readable
  directory.
\<close>

definition missing_env :: os_env where
  "missing_env = \<lparr>logger_set = True, isdir = (\<lambda>p. False), fd_isdir = (\<lambda>b. False), access_r = (\<lambda>p. False),
                   access_w = (\<lambda>p. False), makedirs_ok = (\<lambda>p. True), mkdtemp = Some ''/tmp/tmpab12''\<rparr>"

definition unreadable_env :: os_env where
  "unreadable_env = \<lparr>logger_set = True, isdir = (\<lambda>p. p = ''site''), fd_isdir = (\<lambda>b. False), access_r = (\<lambda>p. False),
                      access_w = (\<lambda>p. True), makedirs_ok = (\<lambda>p. True), mkdtemp = Some ''/tmp/tmpab12''\<rparr>"

definition ready_env :: os_env where
  "ready_env = \<lparr>logger_set = True, isdir = (\<lambda>p. p = ''site''), fd_isdir = (\<lambda>b. False), access_r = (\<lambda>p. True),
                 access_w = (\<lambda>p. True), makedirs_ok = (\<lambda>p. True), mkdtemp = Some ''/tmp/tmpab12''\<rparr>"

text \<open>
  A site whose \<open>index.html\<close> refers to two assets, \<open>style.css\<close> (content \<open>A\<close>) and
  \<open>app.js\<close> (content \<open>B\<close>), and its one line as segments.
\<close>

definition page_fs :: filesystem where
  "page_fs = posix_fs [(''/home/u/site/app.js'', ''B''),
                       (''/home/u/site/index.html'', ''href=style.css src=app.js\<newline>''),
                       (''/home/u/site/style.css'', ''A'')]
                      [''/home/u/site'', ''/home/u/out'']"

definition page_fingerprinted :: optimizer where
  "page_fingerprinted = (new_optimizer ''site'' ''out'' ''example.com'' [])
     \<lparr>files := [''app.js'', ''index.html'', ''style.css''],
      assets_map :=
        [(''app.js'', Some ''app.df7e70e5021544f4834bbee64a9e3789febc4be81470df629cad6ddb03320a5c.js''),
         (''style.css'', Some ''style.559aead08264d5795d3909718cdd05abd49572e84fe55590eef31a88a08fdffd.css'')],
      rewritables := [''app.js'', ''index.html'', ''style.css'']\<rparr>"

definition page_line :: "segment list" where
  "page_line = [Text (fsdecode ''href=''), Ref ''style.css'', Text (fsdecode '' src=''), Ref ''app.js'',
                Text (fsdecode ''\<newline>'')]"

text \<open>
  A site without assets: \<open>dos.html\<close> has the line ends CR LF, CR and LF, \<open>latin1.html\<close>
  holds the byte E9, which is no UTF-8, and \<open>notes.txt\<close> is not rewritable. The site is
  written to \<open>out\<close>, and onto itself with the output directory \<open>./site\<close>.
\<close>

definition plain_fs :: filesystem where
  "plain_fs = posix_fs
       [(''/home/u/site/dos.html'', ''one'' @ [CHR 0x0D, CHR 0x0A] @ ''two'' @ [CHR 0x0D] @ ''three\<newline>''),
        (''/home/u/site/latin1.html'', ''caf'' @ [CHR 0xE9, CHR 0x0A]),
        (''/home/u/site/notes.txt'', ''notes\<newline>'')]
       [''/home/u/site'', ''/home/u/out'']"

definition plain_site :: optimizer where
  "plain_site = (new_optimizer ''site'' ''out'' ''example.com'' [])
     \<lparr>files := [''dos.html'', ''latin1.html'', ''notes.txt''],
      rewritables := [''dos.html'', ''latin1.html'']\<rparr>"

definition inplace_site :: optimizer where
  "inplace_site = (new_optimizer ''site'' ''./site'' ''example.com'' [])
     \<lparr>files := [''dos.html'', ''latin1.html'', ''notes.txt''],
      rewritables := [''dos.html'', ''latin1.html'']\<rparr>"

text \<open>
  A site with the assets \<open>app.css\<close> (content \<open>A\<close>, whose digest ends in \<open>d\<close>) and
  \<open>d.css\<close> (content \<open>B\<close>); \<open>index.html\<close> refers to \<open>app.css\<close> only.
\<close>

definition suffix_fs :: filesystem where
  "suffix_fs = posix_fs [(''/home/u/site/app.css'', ''A''), (''/home/u/site/d.css'', ''B''),
                         (''/home/u/site/index.html'', ''href=app.css\<newline>'')]
                        [''/home/u/site'', ''/home/u/out'']"

definition suffix_indexed :: optimizer where
  "suffix_indexed = (new_optimizer ''site'' ''out'' ''example.com'' [])
     \<lparr>files := [''app.css'', ''d.css'', ''index.html''],
      assets_map := [(''app.css'', None), (''d.css'', None)],
      rewritables := [''app.css'', ''d.css'', ''index.html'']\<rparr>"

definition suffix_fingerprinted :: optimizer where
  "suffix_fingerprinted = suffix_indexed
     \<lparr>assets_map :=
        [(''app.css'', Some ''app.559aead08264d5795d3909718cdd05abd49572e84fe55590eef31a88a08fdffd.css''),
         (''d.css'', Some ''d.df7e70e5021544f4834bbee64a9e3789febc4be81470df629cad6ddb03320a5c.css'')]\<rparr>"

text \<open>
  A site with \<open>ax.css\<close> (content \<open>A\<close>), \<open>x.css\<close> (content \<open>B\<close>) and \<open>index.html\<close>,
  which refers to \<open>ax.css\<close>. The operating system may list the directory in any
  order; four listings of the same directory, and the states after indexing and after
  fingerprinting for each.
\<close>

definition overlap_fs :: filesystem where
  "overlap_fs = posix_fs [(''/home/u/site/ax.css'', ''A''), (''/home/u/site/x.css'', ''B''),
                          (''/home/u/site/index.html'', ''href=ax.css\<newline>'')]
                         [''/home/u/site'', ''/home/u/out'']"

definition overlap_tree1 :: dirtree where
  "overlap_tree1 = Dir [] [''ax.css'', ''index.html'', ''x.css'']"

definition overlap_tree2 :: dirtree where
  "overlap_tree2 = Dir [] [''x.css'', ''index.html'', ''ax.css'']"

definition overlap_tree3 :: dirtree where
  "overlap_tree3 = Dir [] [''index.html'', ''ax.css'', ''x.css'']"

definition overlap_tree4 :: dirtree where
  "overlap_tree4 = Dir [] [''x.css'', ''ax.css'', ''index.html'']"

definition overlap_indexed1 :: optimizer where
  "overlap_indexed1 = (new_optimizer ''site'' ''out'' ''example.com'' [])
     \<lparr>files := [''ax.css'', ''index.html'', ''x.css''],
      assets_map := [(''ax.css'', None), (''x.css'', None)],
      rewritables := [''ax.css'', ''index.html'', ''x.css'']\<rparr>"

definition overlap_indexed2 :: optimizer where
  "overlap_indexed2 = (new_optimizer ''site'' ''out'' ''example.com'' [])
     \<lparr>files := [''x.css'', ''index.html'', ''ax.css''],
      assets_map := [(''x.css'', None), (''ax.css'', None)],
      rewritables := [''x.css'', ''index.html'', ''ax.css'']\<rparr>"

definition overlap_indexed3 :: optimizer where
  "overlap_indexed3 = (new_optimizer ''site'' ''out'' ''example.com'' [])
     \<lparr>files := [''index.html'', ''ax.css'', ''x.css''],
      assets_map := [(''ax.css'', None), (''x.css'', None)],
      rewritables := [''index.html'', ''ax.css'', ''x.css'']\<rparr>"

definition overlap_indexed4 :: optimizer where
  "overlap_indexed4 = (new_optimizer ''site'' ''out'' ''example.com'' [])
     \<lparr>files := [''x.css'', ''ax.css'', ''index.html''],
      assets_map := [(''x.css'', None), (''ax.css'', None)],
      rewritables := [''x.css'', ''ax.css'', ''index.html'']\<rparr>"

definition overlap_fingerprinted1 :: optimizer where
  "overlap_fingerprinted1 = overlap_indexed1
     \<lparr>assets_map :=
        [(''ax.css'', Some ''ax.559aead08264d5795d3909718cdd05abd49572e84fe55590eef31a88a08fdffd.css''),
         (''x.css'', Some ''x.df7e70e5021544f4834bbee64a9e3789febc4be81470df629cad6ddb03320a5c.css'')]\<rparr>"

definition overlap_fingerprinted2 :: optimizer where
  "overlap_fingerprinted2 = overlap_indexed2
     \<lparr>assets_map :=
        [(''x.css'', Some ''x.df7e70e5021544f4834bbee64a9e3789febc4be81470df629cad6ddb03320a5c.css''),
         (''ax.css'', Some ''ax.559aead08264d5795d3909718cdd05abd49572e84fe55590eef31a88a08fdffd.css'')]\<rparr>"

definition overlap_fingerprinted3 :: optimizer where
  "overlap_fingerprinted3 = overlap_indexed3
     \<lparr>assets_map :=
        [(''ax.css'', Some ''ax.559aead08264d5795d3909718cdd05abd49572e84fe55590eef31a88a08fdffd.css''),
         (''x.css'', Some ''x.df7e70e5021544f4834bbee64a9e3789febc4be81470df629cad6ddb03320a5c.css'')]\<rparr>"

definition overlap_fingerprinted4 :: optimizer where
  "overlap_fingerprinted4 = overlap_indexed4
     \<lparr>assets_map :=
        [(''x.css'', Some ''x.df7e70e5021544f4834bbee64a9e3789febc4be81470df629cad6ddb03320a5c.css''),
         (''ax.css'', Some ''ax.559aead08264d5795d3909718cdd05abd49572e84fe55590eef31a88a08fdffd.css'')]\<rparr>"

text \<open>
  Two synchronisations. In the first the bucket holds \<open>old.<digest of A>.css\<close> and the
  output directory holds \<open>old.<digest of B>.css\<close> only. In the second the bucket holds
  an \<open>index.html\<close> and \<open>style.<digest of A>.css\<close>, and the output directory holds
  \<open>index.html\<close>, \<open>style.<digest of A>.css\<close> and \<open>app.<digest of B>.css\<close>.
\<close>

definition stale_tree :: dirtree where
  "stale_tree = Dir [] [''old.df7e70e5021544f4834bbee64a9e3789febc4be81470df629cad6ddb03320a5c.css'']"

definition stale_fs :: filesystem where
  "stale_fs = posix_fs
       [(''/home/u/out/old.df7e70e5021544f4834bbee64a9e3789febc4be81470df629cad6ddb03320a5c.css'', ''B'')]
       [''/home/u/out'']"

definition stale_bucket :: s3_bucket where
  "stale_bucket = \<lparr>objects =
       [(''old.559aead08264d5795d3909718cdd05abd49572e84fe55590eef31a88a08fdffd.css'',
         \<lparr>obj_data = ''A'', obj_headers = cache_headers True\<rparr>)],
     put_requests = [], delete_requests = []\<rparr>"

definition sync_tree :: dirtree where
  "sync_tree = Dir [] [''index.html'',
     ''style.559aead08264d5795d3909718cdd05abd49572e84fe55590eef31a88a08fdffd.css'',
     ''app.df7e70e5021544f4834bbee64a9e3789febc4be81470df629cad6ddb03320a5c.css'']"

definition sync_fs :: filesystem where
  "sync_fs = posix_fs
       [(''/home/u/out/index.html'', ''new page''),
        (''/home/u/out/style.559aead08264d5795d3909718cdd05abd49572e84fe55590eef31a88a08fdffd.css'', ''A''),
        (''/home/u/out/app.df7e70e5021544f4834bbee64a9e3789febc4be81470df629cad6ddb03320a5c.css'', ''B'')]
       [''/home/u/out'']"

definition sync_bucket :: s3_bucket where
  "sync_bucket = \<lparr>objects =
       [(''index.html'', \<lparr>obj_data = ''old page'', obj_headers = cache_headers False\<rparr>),
        (''style.559aead08264d5795d3909718cdd05abd49572e84fe55590eef31a88a08fdffd.css'',
         \<lparr>obj_data = ''A'', obj_headers = cache_headers True\<rparr>)],
     put_requests = [], delete_requests = []\<rparr>"

section \<open>Properties\<close>

subsection \<open>Paths and file names\<close>

lemma splitext_append: "splitext p = (s, e) \<Longrightarrow> s @ e = p"
proof -
  let ?P = "\<lambda>c. c \<noteq> CHR ''.'' \<and> c \<noteq> CHR ''/''"
  assume a: "splitext p = (s, e)"
  have id: "takeWhile ?P (rev p) @ dropWhile ?P (rev p) = rev p" by simp
  show ?thesis
  proof (cases "dropWhile ?P (rev p)")
    case Nil
    with a show ?thesis by (simp add: splitext_def)
  next
    case (Cons c front)
    show ?thesis
    proof (cases "c = CHR ''.'' \<and> list_ex (\<lambda>x. x \<noteq> CHR ''.'') (takeWhile (\<lambda>x. x \<noteq> CHR ''/'') front)")
      case True
      with a Cons have se: "s = rev front" "e = CHR ''.'' # rev (takeWhile ?P (rev p))"
        by (auto simp: splitext_def Let_def)
      from id Cons True have "rev p = takeWhile ?P (rev p) @ CHR ''.'' # front" by simp
      then have "p = rev (takeWhile ?P (rev p) @ CHR ''.'' # front)" by (metis rev_rev_ident)
      with se show ?thesis by simp
    next
      case False
      with a Cons show ?thesis by (auto simp: splitext_def Let_def)
    qed
  qed
qed

lemma splitext_ext_shape:
  assumes "splitext p = (s, e)" "e \<noteq> []"
  shows "\<exists>e'. e = CHR ''.'' # e' \<and> CHR ''.'' \<notin> set e' \<and> CHR ''/'' \<notin> set e'
          \<and> list_ex (\<lambda>x. x \<noteq> CHR ''.'') (takeWhile (\<lambda>x. x \<noteq> CHR ''/'') (rev s))"
proof -
  let ?P = "\<lambda>c. c \<noteq> CHR ''.'' \<and> c \<noteq> CHR ''/''"
  have tw: "\<forall>x \<in> set (takeWhile ?P (rev p)). ?P x" by (auto dest: set_takeWhileD)
  show ?thesis
  proof (cases "dropWhile ?P (rev p)")
    case Nil
    with assms show ?thesis by (simp add: splitext_def)
  next
    case (Cons c front)
    let ?c = "c = CHR ''.'' \<and> list_ex (\<lambda>x. x \<noteq> CHR ''.'') (takeWhile (\<lambda>x. x \<noteq> CHR ''/'') front)"
    have sp: "splitext p = (if ?c then (rev front, CHR ''.'' # rev (takeWhile ?P (rev p))) else (p, []))"
      unfolding splitext_def Let_def Cons by simp
    show ?thesis
    proof (cases ?c)
      case True
      with sp assms(1) have se: "s = rev front" "e = CHR ''.'' # rev (takeWhile ?P (rev p))"
        by simp_all
      have "CHR ''.'' \<notin> set (rev (takeWhile ?P (rev p)))" "CHR ''/'' \<notin> set (rev (takeWhile ?P (rev p)))"
        using tw by (metis set_rev)+
      moreover have "list_ex (\<lambda>x. x \<noteq> CHR ''.'') (takeWhile (\<lambda>x. x \<noteq> CHR ''/'') (rev s))"
        using True se(1) by simp
      ultimately show ?thesis using se(2) by blast
    next
      case False
      with sp assms show ?thesis by simp
    qed
  qed
qed

lemma splitext_dot:
  assumes "CHR ''.'' \<notin> set h" "CHR ''/'' \<notin> set h"
    and "list_ex (\<lambda>x. x \<noteq> CHR ''.'') (takeWhile (\<lambda>x. x \<noteq> CHR ''/'') (rev s))"
  shows "splitext (s @ CHR ''.'' # h) = (s, CHR ''.'' # h)"
proof -
  let ?P = "\<lambda>c. c \<noteq> CHR ''.'' \<and> c \<noteq> CHR ''/''"
  have r: "rev (s @ CHR ''.'' # h) = rev h @ CHR ''.'' # rev s" by simp
  have all: "\<forall>x \<in> set (rev h). ?P x" using assms by auto
  have t: "takeWhile ?P (rev h @ CHR ''.'' # rev s) = rev h"
    using all by (subst takeWhile_append2) auto
  have d: "dropWhile ?P (rev h @ CHR ''.'' # rev s) = CHR ''.'' # rev s"
    using all by (subst dropWhile_append2) auto
  show ?thesis
    unfolding splitext_def r t d using assms(3) by simp
qed

lemma last_sep_unique:
  assumes "x @ c # y = x' @ c # y'" "c \<notin> set y" "c \<notin> set y'"
  shows "x = x' \<and> y = y'"
proof -
  have "rev y @ c # rev x = rev y' @ c # rev x'"
    using assms(1) by (metis rev.simps(2) rev_append append_assoc append_Cons append_Nil) 
  then have "takeWhile (\<lambda>z. z \<noteq> c) (rev y @ c # rev x) = takeWhile (\<lambda>z. z \<noteq> c) (rev y' @ c # rev x')" by simp
  moreover have "takeWhile (\<lambda>z. z \<noteq> c) (rev y) = rev y" "takeWhile (\<lambda>z. z \<noteq> c) (rev y') = rev y'"
    using assms(2,3) by (auto simp: takeWhile_eq_all_conv)
  ultimately have "rev y = rev y'" by (simp add: takeWhile_tail)
  then have "y = y'" by simp
  with assms(1) show ?thesis by simp
qed

lemma convert_filename_inj:
  assumes eq: "convert_filename p1 h1 = convert_filename p2 h2"
    and h1: "CHR ''.'' \<notin> set h1" "CHR ''/'' \<notin> set h1"
    and h2: "CHR ''.'' \<notin> set h2" "CHR ''/'' \<notin> set h2"
  shows "p1 = p2 \<and> h1 = h2"
proof -
  define dot where "dot = CHR ''.''"
  define nondot where "nondot = (\<lambda>s. list_ex (\<lambda>x. x \<noteq> CHR ''.'') (takeWhile (\<lambda>x. x \<noteq> CHR ''/'') (rev s)))"
  obtain s1 e1 where sp1: "splitext p1 = (s1, e1)" by (cases "splitext p1")
  obtain s2 e2 where sp2: "splitext p2 = (s2, e2)" by (cases "splitext p2")
  have p1: "p1 = s1 @ e1" and p2: "p2 = s2 @ e2"
    using splitext_append[OF sp1] splitext_append[OF sp2] by simp_all
  have hd1: "dot \<notin> set h1" and hd2: "dot \<notin> set h2" using h1 h2 by (simp_all add: dot_def)
  from eq sp1 sp2 have EQ: "s1 @ dot # h1 @ e1 = s2 @ dot # h2 @ e2"
    by (simp add: convert_filename_def dot_def)
  have shape: "\<exists>e'. e = dot # e' \<and> dot \<notin> set e' \<and> nondot s"
    if "splitext p = (s, e)" "e \<noteq> []" for p s e
    using splitext_ext_shape[OF that] unfolding dot_def nondot_def by fast
  have dotted: "splitext (s @ dot # h) = (s, dot # h)"
    if "dot \<notin> set h" "CHR ''/'' \<notin> set h" "nondot s" for s h
    using splitext_dot[of h s] that unfolding dot_def nondot_def by simp
  show ?thesis
  proof (cases "e1 = []")
    case e1: True
    show ?thesis
    proof (cases "e2 = []")
      case True
      from EQ e1 True have "s1 @ dot # h1 = s2 @ dot # h2" by simp
      from last_sep_unique[OF this hd1 hd2] have "s1 = s2" "h1 = h2" by simp_all
      then show ?thesis by (simp add: p1 p2 e1 True)
    next
      case False
      from shape[OF sp2 False] obtain e2' where e2: "e2 = dot # e2'" "dot \<notin> set e2'" and nd: "nondot s2"
        by (elim exE conjE)
      from EQ e1 e2 have "s1 @ dot # h1 = (s2 @ dot # h2) @ dot # e2'" by simp
      from last_sep_unique[OF this hd1 e2(2)] have "s1 = s2 @ dot # h2" by simp
      then have "p1 = s2 @ dot # h2" by (simp add: p1 e1)
      then have "splitext p1 = (s2, dot # h2)" using dotted[OF hd2 h2(2) nd] by simp
      with sp1 e1 show ?thesis by simp
    qed
  next
    case False
    from shape[OF sp1 False] obtain e1' where e1: "e1 = dot # e1'" "dot \<notin> set e1'" and nd: "nondot s1"
      by (elim exE conjE)
    show ?thesis
    proof (cases "e2 = []")
      case True
      from EQ True e1 have "s2 @ dot # h2 = (s1 @ dot # h1) @ dot # e1'" by simp
      from last_sep_unique[OF this hd2 e1(2)] have "s2 = s1 @ dot # h1" by simp
      then have "p2 = s1 @ dot # h1" by (simp add: p2 True)
      then have "splitext p2 = (s1, dot # h1)" using dotted[OF hd1 h1(2) nd] by simp
      with sp2 True show ?thesis by simp
    next
      case e2ne: False
      from shape[OF sp2 e2ne] obtain e2' where e2: "e2 = dot # e2'" "dot \<notin> set e2'"
        by (elim exE conjE)
      from EQ e1 e2 have "(s1 @ dot # h1) @ dot # e1' = (s2 @ dot # h2) @ dot # e2'" by simp
      from last_sep_unique[OF this e1(2) e2(2)] have a: "s1 @ dot # h1 = s2 @ dot # h2" "e1' = e2'" by simp_all
      from last_sep_unique[OF a(1) hd1 hd2] have "s1 = s2" "h1 = h2" by simp_all
      then show ?thesis by (simp add: p1 p2 e1 e2 a(2))
    qed
  qed
qed

lemma hashfile_loop_sha256:
  "0 < bs \<Longrightarrow> (buf = [] \<longrightarrow> afile = []) \<Longrightarrow>
   hashfile_loop buf afile ((sha256 digest)\<lparr>h_state := st\<rparr>) bs = digest (st @ buf @ afile)"
proof (induction buf afile "(sha256 digest)\<lparr>h_state := st\<rparr>" bs arbitrary: st rule: hashfile_loop.induct)
  case (1 buf afile blocksize)
  show ?case
  proof (cases "buf = []")
    case True
    with 1 show ?thesis by (simp add: hashfile_loop.simps hexdigest_def sha256_def)
  next
    case False
    have u: "update ((sha256 digest)\<lparr>h_state := st\<rparr>) buf = (sha256 digest)\<lparr>h_state := st @ buf\<rparr>"
      by (simp add: update_def sha256_def)
    have "hashfile_loop buf afile ((sha256 digest)\<lparr>h_state := st\<rparr>) blocksize
        = hashfile_loop (take blocksize afile) (drop blocksize afile) ((sha256 digest)\<lparr>h_state := st @ buf\<rparr>) blocksize"
      using False by (subst hashfile_loop.simps) (simp add: u file_read_def)
    also have "\<dots> = digest ((st @ buf) @ take blocksize afile @ drop blocksize afile)"
      using False 1(2) by (intro 1(1)[OF _ u[symmetric]]) (auto simp: file_read_def)
    finally show ?thesis by simp
  qed
qed

lemma hashfile_sha256: "0 < bs \<Longrightarrow> hashfile content (sha256 digest) bs = digest content"
  using hashfile_loop_sha256[where bs=bs and buf="take bs content" and afile="drop bs content" and digest=digest and st="[]"]
  by (simp add: hashfile_def file_read_def sha256_def)

subsection \<open>Fingerprinting\<close>

lemma calc_loop_result:
  assumes "calculate_fingerprints_loop digest fs ks self = Inr self'"
  shows "self' = self\<lparr>assets_map := assets_map self'\<rparr>
       \<and> (\<forall>p \<in> set ks. \<exists>c. fs (os_path_join (source_dir self) p) = Some c
              \<and> map_of (assets_map self') p = Some (Some (convert_filename p (digest c))))
       \<and> (\<forall>p. p \<notin> set ks \<longrightarrow> map_of (assets_map self') p = map_of (assets_map self) p)
       \<and> (set ks \<subseteq> fst ` set (assets_map self) \<longrightarrow> map fst (assets_map self') = map fst (assets_map self))"
  using assms
proof (induction ks arbitrary: self)
  case Nil
  then show ?case by simp
next
  case (Cons k ks)
  from Cons.prems obtain c where c: "fs (os_path_join (source_dir self) k) = Some c"
    by (auto split: option.splits)
  let ?n = "convert_filename k (digest c)"
  let ?s = "self\<lparr>assets_map := AList.update k (Some ?n) (assets_map self)\<rparr>"
  have hf: "hashfile c (sha256 digest) default_blocksize = digest c"
    by (rule hashfile_sha256) (simp add: default_blocksize_def)
  from Cons.prems c hf have rec: "calculate_fingerprints_loop digest fs ks ?s = Inr self'"
    by (simp add: Let_def)
  note IH = Cons.IH[OF rec]
  have 1: "self' = self\<lparr>assets_map := assets_map self'\<rparr>"
    using IH by (metis (no_types, lifting) optimizer.surjective optimizer.update_convs(6) optimizer.select_convs)
  have sd: "source_dir ?s = source_dir self" by simp
  have mo: "map_of (assets_map ?s) = (map_of (assets_map self))(k \<mapsto> Some ?n)"
    by (simp add: update_conv')
  have 2: "\<exists>c. fs (os_path_join (source_dir self) p) = Some c
              \<and> map_of (assets_map self') p = Some (Some (convert_filename p (digest c)))"
    if "p \<in> set (k # ks)" for p
  proof (cases "p \<in> set ks")
    case True
    with IH sd show ?thesis by metis
  next
    case False
    with that have "p = k" by simp
    moreover from IH False have "map_of (assets_map self') p = map_of (assets_map ?s) p" by blast
    ultimately show ?thesis using c mo by simp
  qed
  have 3: "map_of (assets_map self') p = map_of (assets_map self) p" if "p \<notin> set (k # ks)" for p
  proof -
    from that IH have "map_of (assets_map self') p = map_of (assets_map ?s) p" by simp
    with that mo show ?thesis by simp
  qed
  have 4: "map fst (assets_map self') = map fst (assets_map self)"
    if "set (k # ks) \<subseteq> fst ` set (assets_map self)"
  proof -
    from that have k: "k \<in> set (map fst (assets_map self))" by simp
    then have keys: "map fst (assets_map ?s) = map fst (assets_map self)"
      by (simp add: update_keys)
    then have "fst ` set (assets_map ?s) = fst ` set (assets_map self)"
      by (metis list.set_map)
    with that have "set ks \<subseteq> fst ` set (assets_map ?s)" by simp
    with IH keys show ?thesis by metis
  qed
  from 1 2 3 4 show ?case by blast
qed

lemma calculate_fingerprints_result:
  assumes "calculate_fingerprints digest fs self = Inr self'"
  shows "self' = self\<lparr>assets_map := assets_map self'\<rparr>"
    and "map fst (assets_map self') = map fst (assets_map self)"
    and "p \<in> fst ` set (assets_map self) \<Longrightarrow>
           \<exists>c. fs (os_path_join (source_dir self) p) = Some c
              \<and> map_of (assets_map self') p = Some (Some (convert_filename p (digest c)))"
proof -
  note r = calc_loop_result[OF assms[unfolded calculate_fingerprints_def]]
  show "self' = self\<lparr>assets_map := assets_map self'\<rparr>" using r by blast
  show "map fst (assets_map self') = map fst (assets_map self)" using r by simp
  show "\<exists>c. fs (os_path_join (source_dir self) p) = Some c
              \<and> map_of (assets_map self') p = Some (Some (convert_filename p (digest c)))"
    if "p \<in> fst ` set (assets_map self)"
    using r that by (metis list.set_map)
qed

text \<open>
  C6. For every registered asset, fingerprinting stores as new name the stem of the
  path, a dot, the hexadecimal digest of the bytes of the file, and the extension of
  the path, where stem and extension are the two parts \<open>os.path.splitext\<close> gives
  (\<open>app.css\<close> becomes \<open>app.<digest>.css\<close>); with an empty extension the name ends
  with the dot and the digest. A digest of 64 characters, as SHA-256 gives in
  hexadecimal, makes the name 65 characters longer than the path.
\<close>

theorem filename_derivation:
  assumes "calculate_fingerprints digest fs self = Inr self'"
    and "p \<in> fst ` set (assets_map self)"
    and "splitext p = (stem, ext)"
  shows "\<exists>content. fs (os_path_join (source_dir self) p) = Some content
           \<and> map_of (assets_map self') p = Some (Some (stem @ ''.'' @ digest content @ ext))
           \<and> stem @ ext = p
           \<and> (ext = [] \<longrightarrow> map_of (assets_map self') p = Some (Some (p @ ''.'' @ digest content)))
           \<and> (length (digest content) = 64 \<longrightarrow>
                 length (stem @ ''.'' @ digest content @ ext) = length p + 65)"
proof -
  from calculate_fingerprints_result(3)[OF assms(1,2)] obtain c
    where c: "fs (os_path_join (source_dir self) p) = Some c"
      "map_of (assets_map self') p = Some (Some (convert_filename p (digest c)))" by blast
  have cf: "convert_filename p (digest c) = stem @ ''.'' @ digest c @ ext"
    using assms(3) by (simp add: convert_filename_def)
  have se: "stem @ ext = p" using assms(3) by (rule splitext_append)
  then have "length p = length stem + length ext" by auto
  then have len: "length (digest c) = 64 \<longrightarrow>
                 length (stem @ ''.'' @ digest c @ ext) = length p + 65" by simp
  show ?thesis using c cf se len by auto
qed

lemma splitext_examples:
  "splitext ''app.css'' = (''app'', ''.css'')"
  "splitext ''a.css'' = (''a'', ''.css'')"
  "splitext ''b.css'' = (''b'', ''.css'')"
  "splitext ''README'' = (''README'', [])"
  by (simp_all add: splitext_def)

lemma join_examples:
  "os_path_join ''site'' ''app.css'' = ''site/app.css''"
  "os_path_join ''site'' ''a.css'' = ''site/a.css''"
  "os_path_join ''site'' ''b.css'' = ''site/b.css''"
  by (simp_all add: os_path_join_def)

lemma sha256_table_A:
  "sha256_table ''A'' = ''559aead08264d5795d3909718cdd05abd49572e84fe55590eef31a88a08fdffd''"
  by (simp add: sha256_table_def)

lemma hashfile_default: "hashfile content (sha256 digest) default_blocksize = digest content"
  by (rule hashfile_sha256) (simp add: default_blocksize_def)

lemma app_run:
  "calculate_fingerprints sha256_table app_fs app_indexed = Inr app_fingerprinted"
  by (simp add: calculate_fingerprints_def app_indexed_def app_fingerprinted_def app_fs_def
      new_optimizer_def join_examples hashfile_default convert_filename_def splitext_examples
      sha256_table_A)

lemma twins_run:
  "calculate_fingerprints sha256_table twins_fs twins_indexed = Inr twins_fingerprinted"
  by (simp add: calculate_fingerprints_def twins_indexed_def twins_fingerprinted_def twins_fs_def
      new_optimizer_def join_examples hashfile_default convert_filename_def splitext_examples
      sha256_table_A)

text \<open>On the site with \<open>app.css\<close> the new name is \<open>app.<digest of A>.css\<close>.\<close>

theorem filename_derivation_witness:
  "calculate_fingerprints sha256_table app_fs app_indexed = Inr app_fingerprinted
   \<and> ''app.css'' \<in> fst ` set (assets_map app_indexed)
   \<and> splitext ''app.css'' = (''app'', ''.css'')
   \<and> map_of (assets_map app_fingerprinted) ''app.css''
       = Some (Some ''app.559aead08264d5795d3909718cdd05abd49572e84fe55590eef31a88a08fdffd.css'')"
proof -
  have h2: "''app.css'' \<in> fst ` set (assets_map app_indexed)"
    by (simp add: app_indexed_def)
  have h3: "splitext ''app.css'' = (''app'', ''.css'')" by (rule splitext_examples)
  from filename_derivation[OF app_run h2 h3] obtain content
    where c: "app_fs (os_path_join (source_dir app_indexed) ''app.css'') = Some content"
      and n: "map_of (assets_map app_fingerprinted) ''app.css''
                = Some (Some (''app'' @ ''.'' @ sha256_table content @ ''.css''))"
    by blast
  from c have "content = ''A''"
    by (simp add: app_fs_def app_indexed_def new_optimizer_def join_examples)
  with n have "map_of (assets_map app_fingerprinted) ''app.css''
       = Some (Some ''app.559aead08264d5795d3909718cdd05abd49572e84fe55590eef31a88a08fdffd.css'')"
    by (simp add: sha256_table_A)
  with app_run h2 h3 show ?thesis by blast
qed

text \<open>
  C1 (as amended). Two assets, in the same run or in two runs with different source
  directories and file tables, that have the same bytes get the same hexadecimal
  fingerprint: it is the digest of the bytes alone, whatever the block size of the
  reads. The derived name is the asset's own stem, a dot, that fingerprint and the
  asset's own extension; so it is the same across runs for the same original path, and
  two assets with the same content and different paths share the fingerprint, not the
  name.
\<close>

theorem fingerprint_deterministic:
  assumes "calculate_fingerprints digest fs1 self1 = Inr self1'"
    and "calculate_fingerprints digest fs2 self2 = Inr self2'"
    and "p1 \<in> fst ` set (assets_map self1)"
    and "p2 \<in> fst ` set (assets_map self2)"
    and "fs1 (os_path_join (source_dir self1) p1) = Some content"
    and "fs2 (os_path_join (source_dir self2) p2) = Some content"
  shows "new_filename self1' p1 = Inr (fst (splitext p1) @ ''.'' @ digest content @ snd (splitext p1))
       \<and> new_filename self2' p2 = Inr (fst (splitext p2) @ ''.'' @ digest content @ snd (splitext p2))
       \<and> (0 < blocksize \<longrightarrow> hashfile content (sha256 digest) blocksize = digest content)
       \<and> (p1 = p2 \<longrightarrow> new_filename self1' p1 = new_filename self2' p2)"
proof -
  from calculate_fingerprints_result(3)[OF assms(1,3)] assms(5)
  have 1: "map_of (assets_map self1') p1 = Some (Some (convert_filename p1 (digest content)))"
    by auto
  from calculate_fingerprints_result(3)[OF assms(2,4)] assms(6)
  have 2: "map_of (assets_map self2') p2 = Some (Some (convert_filename p2 (digest content)))"
    by auto
  show ?thesis using 1 2 hashfile_sha256
    by (auto simp: new_filename_def convert_filename_def Let_def)
qed

text \<open>On the site with \<open>a.css\<close> and \<open>b.css\<close> of equal content, both names embed the digest of \<open>A\<close>.\<close>

theorem fingerprint_deterministic_witness:
  "new_filename twins_fingerprinted ''a.css''
     = Inr ''a.559aead08264d5795d3909718cdd05abd49572e84fe55590eef31a88a08fdffd.css''
   \<and> new_filename twins_fingerprinted ''b.css''
     = Inr ''b.559aead08264d5795d3909718cdd05abd49572e84fe55590eef31a88a08fdffd.css''"
proof -
  have a: "''a.css'' \<in> fst ` set (assets_map twins_indexed)"
    and b: "''b.css'' \<in> fst ` set (assets_map twins_indexed)"
    by (simp_all add: twins_indexed_def)
  have ca: "twins_fs (os_path_join (source_dir twins_indexed) ''a.css'') = Some ''A''"
    and cb: "twins_fs (os_path_join (source_dir twins_indexed) ''b.css'') = Some ''A''"
    by (simp_all add: twins_fs_def twins_indexed_def new_optimizer_def join_examples)
  from fingerprint_deterministic[OF twins_run twins_run a b ca cb]
  show ?thesis by (simp add: splitext_examples sha256_table_A)
qed

text \<open>
  The derived names are not identical across two assets with the same content:
  \<open>a.css\<close> and \<open>b.css\<close> have the same bytes and different new names.
\<close>

theorem same_content_names_differ:
  "calculate_fingerprints sha256_table twins_fs twins_indexed = Inr twins_fingerprinted
   \<and> twins_fs (os_path_join (source_dir twins_indexed) ''a.css'')
       = twins_fs (os_path_join (source_dir twins_indexed) ''b.css'')
   \<and> new_filename twins_fingerprinted ''a.css'' \<noteq> new_filename twins_fingerprinted ''b.css''"
proof -
  have "twins_fs (os_path_join (source_dir twins_indexed) ''a.css'')
       = twins_fs (os_path_join (source_dir twins_indexed) ''b.css'')"
    by (simp add: twins_fs_def twins_indexed_def new_optimizer_def join_examples)
  moreover have "new_filename twins_fingerprinted ''a.css'' \<noteq> new_filename twins_fingerprinted ''b.css''"
    by (simp add: new_filename_def twins_fingerprinted_def)
  ultimately show ?thesis using twins_run by blast
qed

text \<open>
  C5. After fingerprinting, two distinct asset paths never have the same fingerprinted
  name: the map from original path to new name is injective on the asset set, hence a
  bijection onto the set of new names. The digests are hexadecimal strings; that two
  contents have different digests is not even needed.
\<close>

theorem asset_map_injective:
  assumes run: "calculate_fingerprints digest fs self = Inr self'"
    and hex: "\<forall>c. set (digest c) \<subseteq> set ''0123456789abcdef''"
  shows "inj_on (new_filename self') (fst ` set (assets_map self'))
       \<and> bij_betw (new_filename self') (fst ` set (assets_map self'))
            (new_filename self' ` fst ` set (assets_map self'))
       \<and> (\<forall>p \<in> fst ` set (assets_map self'). \<exists>n. new_filename self' p = Inr n)"
proof -
  have keys: "fst ` set (assets_map self') = fst ` set (assets_map self)"
    using calculate_fingerprints_result(2)[OF run] by (metis list.set_map)
  have nodot: "CHR ''.'' \<notin> set (digest c)" "CHR ''/'' \<notin> set (digest c)" for c
    using hex[rule_format, of c] by auto
  have name: "\<exists>c. new_filename self' p = Inr (convert_filename p (digest c))"
    if "p \<in> fst ` set (assets_map self')" for p
    using calculate_fingerprints_result(3)[OF run, of p] that keys
    by (auto simp: new_filename_def)
  have inj: "inj_on (new_filename self') (fst ` set (assets_map self'))"
  proof (rule inj_onI)
    fix p1 p2
    assume p: "p1 \<in> fst ` set (assets_map self')" "p2 \<in> fst ` set (assets_map self')"
      and eq: "new_filename self' p1 = new_filename self' p2"
    from name[OF p(1)] obtain c1 where c1: "new_filename self' p1 = Inr (convert_filename p1 (digest c1))" ..
    from name[OF p(2)] obtain c2 where c2: "new_filename self' p2 = Inr (convert_filename p2 (digest c2))" ..
    from eq c1 c2 have "convert_filename p1 (digest c1) = convert_filename p2 (digest c2)" by simp
    from convert_filename_inj[OF this nodot nodot] show "p1 = p2" by simp
  qed
  moreover from inj have "bij_betw (new_filename self') (fst ` set (assets_map self'))
            (new_filename self' ` fst ` set (assets_map self'))"
    by (rule inj_on_imp_bij_betw)
  moreover have "\<forall>p \<in> fst ` set (assets_map self'). \<exists>n. new_filename self' p = Inr n"
    using name by blast
  ultimately show ?thesis by blast
qed


lemma sha256_table_hex: "set (sha256_table c) \<subseteq> set ''0123456789abcdef''"
  by (simp add: sha256_table_def)

text \<open>On the site with \<open>a.css\<close> and \<open>b.css\<close> the two new names differ.\<close>

theorem asset_map_injective_witness:
  "calculate_fingerprints sha256_table twins_fs twins_indexed = Inr twins_fingerprinted
   \<and> new_filename twins_fingerprinted ''a.css'' \<noteq> new_filename twins_fingerprinted ''b.css''"
proof -
  have hex: "\<forall>c. set (sha256_table c) \<subseteq> set ''0123456789abcdef''"
    using sha256_table_hex by blast
  from asset_map_injective[OF twins_run hex]
  have "inj_on (new_filename twins_fingerprinted) (fst ` set (assets_map twins_fingerprinted))"
    by blast
  moreover have "''a.css'' \<in> fst ` set (assets_map twins_fingerprinted)"
    "''b.css'' \<in> fst ` set (assets_map twins_fingerprinted)"
    by (simp_all add: twins_fingerprinted_def)
  moreover have "''a.css'' \<noteq> ''b.css''" by simp
  ultimately have "new_filename twins_fingerprinted ''a.css'' \<noteq> new_filename twins_fingerprinted ''b.css''"
    by (meson inj_onD)
  with twins_run show ?thesis by blast
qed

subsection \<open>Indexing\<close>

lemma keys_update: "fst ` set (AList.update k v al) = insert k (fst ` set al)"
  by (induction al) auto

lemma index_file_fields:
  "exclude (index_file rp f self) = exclude self"
  "source_dir (index_file rp f self) = source_dir self"
  "subdirs (index_file rp f self) = subdirs self"
  "files (index_file rp f self) = files self @ [rp]"
  "set (rewritables (index_file rp f self)) \<subseteq> insert rp (set (rewritables self))"
  "fst ` set (assets_map (index_file rp f self)) \<subseteq> insert rp (fst ` set (assets_map self))"
  by (auto simp: index_file_def Let_def keys_update)

lemma index_file_clean:
  assumes "no_excluded_indexed fnm self" "\<not> excluded fnm (exclude self) rp"
  shows "no_excluded_indexed fnm (index_file rp f self)"
  unfolding no_excluded_indexed_def
proof (intro ballI)
  fix p
  assume "p \<in> set (subdirs (index_file rp f self)) \<union> set (files (index_file rp f self))
            \<union> fst ` set (assets_map (index_file rp f self)) \<union> set (rewritables (index_file rp f self))"
  then have "p = rp \<or> p \<in> set (subdirs self) \<union> set (files self)
            \<union> fst ` set (assets_map self) \<union> set (rewritables self)"
    using index_file_fields(5,6)[of rp f self] by (auto simp: index_file_fields(3,4))
  with assms show "\<not> excluded fnm (exclude (index_file rp f self)) p"
    by (auto simp: no_excluded_indexed_def index_file_fields(1))
qed

lemma index_dirnames_clean:
  "index_dirnames fnm cwd dirpath ds self = Inr self' \<Longrightarrow> no_excluded_indexed fnm self \<Longrightarrow>
   no_excluded_indexed fnm self' \<and> exclude self' = exclude self \<and> source_dir self' = source_dir self"
proof (induction ds arbitrary: self)
  case Nil
  then show ?case by simp
next
  case (Cons d ds)
  from Cons.prems(1) obtain rp where rp: "relpath cwd (os_path_join dirpath d) (source_dir self) = Inr rp"
    by (auto split: sum.splits)
  show ?case
  proof (cases "excluded fnm (exclude self) rp")
    case True
    with Cons rp show ?thesis by simp
  next
    case False
    let ?s = "self\<lparr>subdirs := subdirs self @ [rp]\<rparr>"
    from Cons.prems(1) rp False have rec: "index_dirnames fnm cwd dirpath ds ?s = Inr self'" by simp
    have "no_excluded_indexed fnm ?s"
      using Cons.prems(2) False by (auto simp: no_excluded_indexed_def)
    from Cons.IH[OF rec this] show ?thesis by simp
  qed
qed

lemma index_fnames_clean:
  "index_fnames fnm cwd dirpath fs self = Inr self' \<Longrightarrow> no_excluded_indexed fnm self \<Longrightarrow>
   no_excluded_indexed fnm self' \<and> exclude self' = exclude self \<and> source_dir self' = source_dir self"
proof (induction fs arbitrary: self)
  case Nil
  then show ?case by simp
next
  case (Cons f fs)
  from Cons.prems(1) obtain rp where rp: "relpath cwd (os_path_join dirpath f) (source_dir self) = Inr rp"
    by (auto split: sum.splits)
  show ?case
  proof (cases "excluded fnm (exclude self) rp")
    case True
    with Cons rp show ?thesis by simp
  next
    case ne: False
    from Cons.prems(1) rp ne have rec: "index_fnames fnm cwd dirpath fs (index_file rp f self) = Inr self'"
      by simp
    from Cons.IH[OF rec index_file_clean[OF Cons.prems(2) ne]] show ?thesis
      by (simp add: index_file_fields)
  qed
qed

lemma index_walk_clean:
  "index_walk fnm cwd w self = Inr self' \<Longrightarrow> no_excluded_indexed fnm self \<Longrightarrow>
   no_excluded_indexed fnm self' \<and> exclude self' = exclude self \<and> source_dir self' = source_dir self"
proof (induction w arbitrary: self)
  case Nil
  then show ?case by simp
next
  case (Cons e w)
  obtain dirpath dirnames fnames where e: "e = (dirpath, dirnames, fnames)" by (cases e)
  from Cons.prems(1) e obtain s1 s2 where
    1: "index_dirnames fnm cwd dirpath dirnames self = Inr s1" and
    2: "index_fnames fnm cwd dirpath fnames s1 = Inr s2" and
    3: "index_walk fnm cwd w s2 = Inr self'"
    by (auto split: sum.splits)
  from index_dirnames_clean[OF 1 Cons.prems(2)] have c1: "no_excluded_indexed fnm s1"
    and k1: "exclude s1 = exclude self" "source_dir s1 = source_dir self" by simp_all
  from index_fnames_clean[OF 2 c1] have c2: "no_excluded_indexed fnm s2"
    and k2: "exclude s2 = exclude s1" "source_dir s2 = source_dir s1" by simp_all
  from Cons.IH[OF 3 c2] k1 k2 show ?case by simp
qed

lemma index_source_dir_clean:
  assumes "index_source_dir fnm cwd root (new_optimizer src out bucket excl) = Inr self'"
  shows "no_excluded_indexed fnm self'" "exclude self' = excl"
proof -
  have "no_excluded_indexed fnm (new_optimizer src out bucket excl)"
    by (simp add: no_excluded_indexed_def new_optimizer_def)
  from index_walk_clean[OF assms[unfolded index_source_dir_def] this]
  show "no_excluded_indexed fnm self'" "exclude self' = excl"
    by (simp_all add: new_optimizer_def)
qed

text \<open>
  C4. A path that matches an exclusion pattern is in none of the indexes (the lemmas
  above). The second half fails on the code: the loop over \<open>dirnames\<close> skips an
  excluded directory without removing it from \<open>dirnames\<close>, so \<open>os.walk\<close> still
  descends into it. With the pattern \<open>private\<close> the directory \<open>private\<close> is excluded
  and not indexed, yet \<open>private/secret.html\<close> beneath it is indexed as file and as
  rewritable.
\<close>

theorem excluded_directory_is_walked:
  "excluded fnmatch [''private''] ''private''
   \<and> index_source_dir fnmatch ''/home/u'' (Some private_tree)
        (new_optimizer ''site'' ''out'' ''example.com'' [''private'']) = Inr private_indexed
   \<and> subdirs private_indexed = []
   \<and> ''private/secret.html'' \<in> set (files private_indexed)
   \<and> ''private/secret.html'' \<in> set (rewritables private_indexed)"
proof -
  have "excluded fnmatch [''private''] ''private''" by code_simp
  moreover have "index_source_dir fnmatch ''/home/u'' (Some private_tree)
        (new_optimizer ''site'' ''out'' ''example.com'' [''private'']) = Inr private_indexed"
    by code_simp
  moreover have "subdirs private_indexed = []"
    "''private/secret.html'' \<in> set (files private_indexed)"
    "''private/secret.html'' \<in> set (rewritables private_indexed)"
    by (simp_all add: private_indexed_def new_optimizer_def)
  ultimately show ?thesis by blast
qed

text \<open>
  The later stages on that index: \<open>_write_dirs\<close> has no directory to create, so
  \<open>out/private\<close> does not exist, and \<open>_write_files\<close> fails when it opens
  \<open>out/private/secret.html\<close> for writing.
\<close>

lemma private_site_cannot_be_written:
  "write_dirs private_indexed private_fs = Inr private_fs
   \<and> calculate_fingerprints sha256_table (fs_files private_fs) private_indexed = Inr private_indexed
   \<and> write_files private_indexed private_fs = Inl IOError"
proof -
  have "write_dirs private_indexed private_fs = Inr private_fs"
    by (simp add: write_dirs_def private_indexed_def new_optimizer_def)
  moreover have "calculate_fingerprints sha256_table (fs_files private_fs) private_indexed = Inr private_indexed"
    by (simp add: calculate_fingerprints_def private_indexed_def new_optimizer_def)
  moreover have "write_files private_indexed private_fs = Inl IOError"
  proof -
    have "isl (write_files private_indexed private_fs)" by code_simp
    moreover have "projl (write_files private_indexed private_fs) = IOError" by code_simp
    ultimately show ?thesis by (cases "write_files private_indexed private_fs") simp_all
  qed
  ultimately show ?thesis by blast
qed

subsection \<open>Construction\<close>

lemma bind_keywords_keys:
  "bind_keywords names bound kws = Inr locals \<Longrightarrow> fst ` set locals \<subseteq> fst ` set bound \<union> set names"
proof (induction kws arbitrary: bound)
  case Nil
  then show ?case by auto
next
  case (Cons kv kws)
  obtain k v where kv: "kv = (k, v)" by (cases kv)
  from Cons.prems kv have ok: "k \<in> set names" "k \<notin> fst ` set bound"
    and rec: "bind_keywords names (bound @ [(k, v)]) kws = Inr locals"
    by (auto split: if_splits)
  from Cons.IH[OF rec] ok show ?case by auto
qed

lemma fill_defaults_keys:
  "fill_defaults ps bound = Inr locals \<Longrightarrow> fst ` set locals \<subseteq> fst ` set bound \<union> fst ` set ps"
proof (induction ps arbitrary: bound)
  case Nil
  then show ?case by auto
next
  case (Cons nd ps)
  obtain n d where nd: "nd = (n, d)" by (cases nd)
  show ?case
  proof (cases "n \<in> fst ` set bound")
    case True
    with Cons.prems nd have "fill_defaults ps bound = Inr locals" by simp
    from Cons.IH[OF this] show ?thesis by auto
  next
    case False
    with Cons.prems nd obtain v where "d = Some v" "fill_defaults ps (bound @ [(n, v)]) = Inr locals"
      by (auto split: option.splits)
    from Cons.IH[OF this(2)] nd show ?thesis by auto
  qed
qed

lemma bind_args_keys:
  assumes "bind_args params pos kws = Inr locals"
  shows "fst ` set locals \<subseteq> fst ` set params"
proof -
  from assms obtain bound where
    b: "bind_keywords (map fst params) (zip (map fst params) pos) kws = Inr bound"
    and f: "fill_defaults params bound = Inr locals"
    by (auto simp: bind_args_def split: if_splits sum.splits)
  have z: "fst ` set (zip (map fst params) pos) \<subseteq> fst ` set params"
    by (auto dest!: set_zip_leftD)
  have sub: "A \<subseteq> C" if "A \<subseteq> B \<union> C" "B \<subseteq> C" for A B C :: "string set"
    using that by blast
  from bind_keywords_keys[OF b] have "fst ` set bound \<subseteq> fst ` set (zip (map fst params) pos) \<union> fst ` set params"
    by simp
  from sub[OF this z] have "fst ` set bound \<subseteq> fst ` set params" .
  from sub[OF fill_defaults_keys[OF f] this] show ?thesis .
qed

lemma skip_s3_upload_unbound:
  assumes "bind_args init_params pos kws = Inr locals"
  shows "read_name locals ''skip_s3_upload'' = Inl NameError"
proof -
  have "''skip_s3_upload'' \<notin> fst ` set init_params" by (simp add: init_params_def)
  with bind_args_keys[OF assms] have "''skip_s3_upload'' \<notin> fst ` set locals" by blast
  then have "map_of locals ''skip_s3_upload'' = None" by (simp add: map_of_eq_None_iff)
  moreover have "''skip_s3_upload'' \<notin> set module_globals" by (simp add: module_globals_def)
  ultimately show ?thesis by (simp add: read_name_def)
qed

lemma as_path_error: "as_path v = Inl e \<Longrightarrow> e = TypeError"
  by (cases v) (simp_all add: as_path_def)

lemma init_output_dir_error:
  assumes "init_output_dir env v = Inl e"
  shows "e \<noteq> NotADirectoryError"
proof (cases "v = PNone")
  case True
  with assms show ?thesis by (simp add: init_output_dir_def split: option.splits)
next
  case False
  show ?thesis
  proof (cases "as_path v")
    case (Inl e')
    with assms False as_path_error[OF Inl] show ?thesis by (simp add: init_output_dir_def)
  next
    case (Inr od)
    with assms False show ?thesis by (auto simp: init_output_dir_def split: if_splits)
  qed
qed

lemma init_source_dir_error:
  assumes "init_source_dir env v = Inl e"
  shows "e \<noteq> NotADirectoryError"
proof (cases v)
  case PNone
  with assms show ?thesis by (simp add: init_source_dir_def)
next
  case (PStr sd)
  with assms show ?thesis by (auto simp: init_source_dir_def split: if_splits)
next
  case (PBool b)
  with assms show ?thesis by (auto simp: init_source_dir_def split: if_splits)
next
  case (PList l)
  with assms show ?thesis by (simp add: init_source_dir_def)
qed

lemma init_body_raises:
  assumes "read_name locals ''skip_s3_upload'' = Inl NameError"
  shows "\<exists>e. init_body env locals = Inl e \<and> e \<noteq> NotADirectoryError"
proof (cases "logger_set env")
  case False
  then show ?thesis by (simp add: init_body_def)
next
  case lg: True
  show ?thesis
  proof (cases "init_source_dir env (local_var locals ''source_dir'')")
    case (Inl e)
    with lg init_source_dir_error[OF Inl] show ?thesis by (simp add: init_body_def)
  next
    case (Inr sd)
    show ?thesis
    proof (cases "init_output_dir env (local_var locals ''output_dir'')")
      case (Inl e)
      with lg Inr init_output_dir_error[OF Inl] show ?thesis by (simp add: init_body_def)
    next
      case od: (Inr od)
      with lg Inr assms show ?thesis by (simp add: init_body_def)
    qed
  qed
qed

lemma bind_keywords_unknown:
  "k \<notin> set names \<Longrightarrow> (k, v) \<in> set kws \<Longrightarrow> bind_keywords names bound kws = Inl TypeError"
  by (induction kws arbitrary: bound) auto

lemma bind_keywords_error: "bind_keywords names bound kws = Inl e \<Longrightarrow> e = TypeError"
  by (induction kws arbitrary: bound) (auto split: if_splits)

lemma fill_defaults_error: "fill_defaults ps bound = Inl e \<Longrightarrow> e = TypeError"
  by (induction ps arbitrary: bound) (auto split: if_splits option.splits)

lemma bind_args_error: "bind_args params pos kws = Inl e \<Longrightarrow> e = TypeError"
  by (auto simp: bind_args_def split: if_splits sum.splits dest: bind_keywords_error fill_defaults_error)

lemma Optimizer_init_raises:
  "\<exists>e. Optimizer_init env pos kws = Inl e \<and> e \<noteq> NotADirectoryError"
proof (cases "bind_args init_params pos kws")
  case (Inl e)
  with bind_args_error[OF Inl] show ?thesis by (simp add: Optimizer_init_def)
next
  case (Inr locals)
  from init_body_raises[OF skip_s3_upload_unbound[OF Inr]] Inr show ?thesis
    by (simp add: Optimizer_init_def)
qed

lemma main_call_TypeError:
  "Optimizer_init env (main_positional args) (main_keywords args) = Inl TypeError"
proof -
  have "bind_keywords (map fst init_params) bound (main_keywords args) = Inl TypeError" for bound
    by (rule bind_keywords_unknown[where k = "''skip_s3_upload''" and v = "PBool (arg_skip_s3_upload args)"])
       (simp_all add: init_params_def main_keywords_def)
  then show ?thesis
    by (simp add: Optimizer_init_def bind_args_def main_positional_def init_params_def)
qed

text \<open>
  C3. Whatever the arguments and the environment, constructing an \<open>Optimizer\<close> raises:
  when the arguments bind to the parameters, the read of \<open>skip_s3_upload\<close> on line 105
  finds neither a parameter nor a module-level name and raises \<open>NameError\<close> (unless an
  earlier line has raised already); the call of \<open>main\<close> passes the keyword
  \<open>skip_s3_upload\<close>, which is no parameter, and raises \<open>TypeError\<close>. So \<open>main\<close> exits
  with status 1 and never calls \<open>run\<close>.
\<close>

theorem constructor_always_raises:
  "(\<exists>e. Optimizer_init env pos kws = Inl e)
   \<and> (bind_args init_params pos kws = Inr locals
        \<longrightarrow> read_name locals ''skip_s3_upload'' = Inl NameError)
   \<and> Optimizer_init (env\<lparr>logger_set := True\<rparr>) (main_positional args) (main_keywords args)
       = Inl TypeError
   \<and> main env run args = 1"
proof -
  have "\<exists>e. Optimizer_init env pos kws = Inl e" using Optimizer_init_raises by blast
  moreover have "bind_args init_params pos kws = Inr locals
        \<longrightarrow> read_name locals ''skip_s3_upload'' = Inl NameError"
    using skip_s3_upload_unbound by blast
  moreover note main_call_TypeError[of "env\<lparr>logger_set := True\<rparr>" args]
  moreover have "main env run args = 1"
    by (simp add: main_def main_call_TypeError)
  ultimately show ?thesis by blast
qed

lemma ready_bind:
  "bind_args init_params [PStr ''site'', PStr ''example.com''] []
     = Inr [(''source_dir'', PStr ''site''), (''destination_bucket'', PStr ''example.com''),
            (''exclude'', PList []), (''output_dir'', PNone), (''aws_access_key_id'', PNone),
            (''aws_secret_access_key'', PNone)]"
  by (simp add: bind_args_def init_params_def)

text \<open>With a readable source directory and two positional arguments the constructor reaches line 105.\<close>

theorem constructor_always_raises_witness:
  "Optimizer_init ready_env [PStr ''site'', PStr ''example.com''] [] = Inl NameError"
proof -
  from constructor_always_raises[of ready_env "[PStr ''site'', PStr ''example.com'']" "[]" _ _ _] ready_bind
  have "read_name [(''source_dir'', PStr ''site''), (''destination_bucket'', PStr ''example.com''),
            (''exclude'', PList []), (''output_dir'', PNone), (''aws_access_key_id'', PNone),
            (''aws_secret_access_key'', PNone)] ''skip_s3_upload'' = Inl NameError"
    by blast
  then show ?thesis
    by (simp add: Optimizer_init_def ready_bind init_body_def ready_env_def init_source_dir_def
        local_var_def init_output_dir_def)
qed


lemma index_dirnames_error: "index_dirnames fnm cwd dirpath ds self = Inl e \<Longrightarrow> e = ValueError"
  by (induction ds arbitrary: self) (auto simp: relpath_def Let_def split: sum.splits if_splits)

lemma index_fnames_error: "index_fnames fnm cwd dirpath fs self = Inl e \<Longrightarrow> e = ValueError"
  by (induction fs arbitrary: self) (auto simp: relpath_def Let_def split: sum.splits if_splits)

lemma index_walk_error: "index_walk fnm cwd w self = Inl e \<Longrightarrow> e = ValueError"
proof (induction w arbitrary: self)
  case Nil
  then show ?case by simp
next
  case (Cons x w)
  obtain dirpath dirnames fnames where x: "x = (dirpath, dirnames, fnames)" by (cases x)
  from Cons.prems x show ?case
    by (auto split: sum.splits dest: index_dirnames_error index_fnames_error Cons.IH)
qed

lemma index_source_dir_error: "index_source_dir fnm cwd root self = Inl e \<Longrightarrow> e = ValueError"
  unfolding index_source_dir_def by (rule index_walk_error)

lemma index_missing_root: "index_source_dir fnm cwd None self = Inr self"
  by (simp add: index_source_dir_def os_walk_top_def)

text \<open>
  C9 (as amended). The check of the source root is made by the constructor, not by
  the indexer, and its error is \<open>OptimizerError\<close>: when the arguments bind and the
  logger is set, a source root that is no directory gives \<open><dir> is not a valid path\<close>
  and a directory that cannot be read gives \<open><dir> is not a readable dir\<close>. Indexing
  a source root that cannot be walked returns the index unchanged, and neither the
  constructor nor the indexer ever raises \<open>NotADirectoryError\<close>, for a readable source
  directory or any other.
\<close>

theorem source_root_check:
  assumes "bind_args init_params pos kws = Inr locals"
    and "local_var locals ''source_dir'' = PStr sd"
    and "logger_set env"
  shows "(\<not> isdir env sd \<longrightarrow>
            Optimizer_init env pos kws = Inl (OptimizerError (sd @ '' is not a valid path'')))
       \<and> (isdir env sd \<and> \<not> access_r env sd \<longrightarrow>
            Optimizer_init env pos kws = Inl (OptimizerError (sd @ '' is not a readable dir'')))
       \<and> Optimizer_init env pos kws \<noteq> Inl NotADirectoryError
       \<and> index_source_dir fnm cwd None self = Inr self
       \<and> index_source_dir fnm cwd root self \<noteq> Inl NotADirectoryError"
proof -
  have 1: "\<not> isdir env sd \<longrightarrow>
            Optimizer_init env pos kws = Inl (OptimizerError (sd @ '' is not a valid path''))"
    using assms by (simp add: Optimizer_init_def init_body_def init_source_dir_def)
  have 2: "isdir env sd \<and> \<not> access_r env sd \<longrightarrow>
            Optimizer_init env pos kws = Inl (OptimizerError (sd @ '' is not a readable dir''))"
    using assms by (simp add: Optimizer_init_def init_body_def init_source_dir_def)
  have 3: "Optimizer_init env pos kws \<noteq> Inl NotADirectoryError"
    using Optimizer_init_raises[of env pos kws] by auto
  have 4: "index_source_dir fnm cwd root self \<noteq> Inl NotADirectoryError"
    using index_source_dir_error[of fnm cwd root self NotADirectoryError] by auto
  from 1 2 3 4 index_missing_root show ?thesis by blast
qed

text \<open>A source directory that exists and cannot be read.\<close>

theorem source_root_check_witness:
  "Optimizer_init unreadable_env [PStr ''site'', PStr ''example.com''] []
     = Inl (OptimizerError ''site is not a readable dir'')"
proof -
  have sd: "local_var [(''source_dir'', PStr ''site''), (''destination_bucket'', PStr ''example.com''),
            (''exclude'', PList []), (''output_dir'', PNone), (''aws_access_key_id'', PNone),
            (''aws_secret_access_key'', PNone)] ''source_dir'' = PStr ''site''"
    by (simp add: local_var_def)
  have lg: "logger_set unreadable_env" by (simp add: unreadable_env_def)
  from source_root_check[OF ready_bind sd lg]
  show ?thesis by (simp add: unreadable_env_def)
qed

text \<open>
  A source root that does not exist: indexing returns the empty index without error,
  and the error of the constructor is \<open>OptimizerError\<close>.
\<close>

theorem missing_root_no_NotADirectoryError:
  "index_source_dir fnmatch ''/home/u'' None (new_optimizer ''missing'' ''out'' ''example.com'' [])
     = Inr (new_optimizer ''missing'' ''out'' ''example.com'' [])
   \<and> Optimizer_init missing_env [PStr ''missing'', PStr ''example.com''] []
     = Inl (OptimizerError ''missing is not a valid path'')"
proof -
  have "bind_args init_params [PStr ''missing'', PStr ''example.com''] []
     = Inr [(''source_dir'', PStr ''missing''), (''destination_bucket'', PStr ''example.com''),
            (''exclude'', PList []), (''output_dir'', PNone), (''aws_access_key_id'', PNone),
            (''aws_secret_access_key'', PNone)]"
    by (simp add: bind_args_def init_params_def)
  then have "Optimizer_init missing_env [PStr ''missing'', PStr ''example.com''] []
     = Inl (OptimizerError ''missing is not a valid path'')"
    by (simp add: Optimizer_init_def init_body_def missing_env_def init_source_dir_def local_var_def)
  with index_missing_root show ?thesis by blast
qed

subsection \<open>Rewriting\<close>

lemma str_replace_none: "\<not> sublist old s \<Longrightarrow> str_replace s old new = s"
proof (induction s)
  case Nil
  then have "old \<noteq> []" by auto
  then show ?case by (simp add: str_replace.simps)
next
  case (Cons c s)
  then have ne: "old \<noteq> []" by auto
  from Cons.prems have np: "\<not> prefix old (c # s)" by (auto dest: prefix_imp_sublist)
  from Cons.prems have "\<not> sublist old s" by (simp add: sublist_Cons_right)
  with Cons.IH have "str_replace s old new = s" by simp
  with ne np show ?case by (subst str_replace.simps) simp
qed

lemma str_replace_first:
  assumes "old \<noteq> []" "\<not> sublist old (t @ butlast old)"
  shows "str_replace (t @ old @ rest) old new = t @ new @ str_replace rest old new"
  using assms(2)
proof (induction t)
  case Nil
  from assms(1) show ?case by (subst str_replace.simps) simp
next
  case (Cons c t)
  have np: "\<not> prefix old ((c # t) @ old @ rest)"
  proof
    assume p: "prefix old ((c # t) @ old @ rest)"
    have split: "(c # t) @ old @ rest = ((c # t) @ butlast old) @ (last old # rest)"
      using append_butlast_last_id[OF assms(1)] by (metis append_assoc append_Cons append_Nil)
    have "length old \<le> length ((c # t) @ butlast old)" by simp
    with p have "prefix old ((c # t) @ butlast old)"
      unfolding split by (metis prefix_length_prefix prefixI)
    then have "sublist old ((c # t) @ butlast old)" by (rule prefix_imp_sublist)
    with Cons.prems show False by simp
  qed
  from Cons.prems have "\<not> sublist old (t @ butlast old)"
    by (simp add: sublist_Cons_right)
  with Cons.IH have "str_replace (t @ old @ rest) old new = t @ new @ str_replace rest old new" by simp
  with np assms(1) show ?case by (subst str_replace.simps) simp
qed

lemma str_replace_join:
  assumes "only_between old ts"
  shows "str_replace (str_join old ts) old new = str_join new ts"
  using assms
proof (induction old ts rule: str_join.induct)
  case (1 sep)
  then show ?case by (simp add: only_between_def str_replace_none)
next
  case (2 sep w)
  then have "\<not> sublist sep w" by (simp add: only_between_def)
  then show ?case by (simp add: str_replace_none)
next
  case (3 sep w v vs)
  then have ne: "sep \<noteq> []" by (simp add: only_between_def)
  from 3(2) have "only_between sep (v # vs)" by (simp add: only_between_def)
  with 3(1) have "str_replace (str_join sep (v # vs)) sep new = str_join new (v # vs)" by simp
  moreover from 3(2) have "\<not> sublist sep (w @ butlast sep)" by (simp add: only_between_def)
  ultimately show ?case using str_replace_first[OF ne, of w "str_join sep (v # vs)" new] by simp
qed

lemma pieces_nonempty: "pieces b f segs \<noteq> []"
  by (induction b f segs rule: pieces.induct) simp_all

lemma str_join_hd: "ps \<noteq> [] \<Longrightarrow> str_join sep ((t @ hd ps) # tl ps) = t @ str_join sep ps"
  by (cases ps; cases "tl ps") auto

lemma str_join_Nil_Cons: "ps \<noteq> [] \<Longrightarrow> str_join sep ([] # ps) = sep @ str_join sep ps"
  by (cases ps) auto

lemma pieces_render:
  "\<forall>a. a \<noteq> b \<longrightarrow> g a = f a \<Longrightarrow> str_join (g b) (pieces b f segs) = render g segs"
proof (induction b f segs rule: pieces.induct)
  case (1 b f)
  then show ?case by simp
next
  case (2 b f t segs)
  then show ?case by (simp add: str_join_hd pieces_nonempty)
next
  case (3 b f a segs)
  then show ?case by (simp add: str_join_hd str_join_Nil_Cons pieces_nonempty)
qed

lemma rewrite_line_render:
  assumes "rewrite_line self rest (render (stage self replaced) segs) = Inr out"
    and "separated self replaced rest segs"
    and "distinct (replaced @ rest)"
  shows "out = render (stage self (replaced @ rest)) segs"
  using assms
proof (induction rest arbitrary: replaced)
  case Nil
  then show ?case by simp
next
  case (Cons b rest)
  let ?f = "stage self replaced" and ?g = "stage self (replaced @ [b])"
  from Cons.prems(1) obtain n where n: "new_filename self b = Inr n"
    and rec: "rewrite_line self rest (str_replace (render ?f segs) (fsdecode b) (fsdecode n)) = Inr out"
    by (auto split: sum.splits)
  from Cons.prems(3) have nb: "b \<notin> set replaced" by auto
  have same: "\<forall>a. a \<noteq> b \<longrightarrow> ?g a = ?f a" by (simp add: stage_def)
  have fb: "?f b = fsdecode b" using nb by (simp add: stage_def)
  have gb: "?g b = fsdecode n" using n by (simp add: stage_def)
  from Cons.prems(2) have ob: "only_between (fsdecode b) (pieces b ?f segs)"
    and sep: "separated self (replaced @ [b]) rest segs" by simp_all
  have "render ?f segs = str_join (fsdecode b) (pieces b ?f segs)"
    using pieces_render[of b ?f ?f segs] fb by simp
  then have "str_replace (render ?f segs) (fsdecode b) (fsdecode n) = str_join (fsdecode n) (pieces b ?f segs)"
    using str_replace_join[OF ob] by simp
  also have "\<dots> = render ?g segs" using pieces_render[OF same, of segs] gb by simp
  finally have "rewrite_line self rest (render ?g segs) = Inr out" using rec by simp
  from Cons.IH[OF this sep] Cons.prems(3) show ?case by simp
qed

lemma stage_Nil: "stage self [] = fsdecode"
  by (rule ext) (simp add: stage_def)

lemma fsencode_fsdecode: "fsencode (fsdecode bs) = bs"
proof (induction bs rule: fsdecode.induct)
  case 1
  then show ?case by (simp add: fsencode_def fsdecode.simps)
next
  case (2 b bs)
  show ?case
  proof (cases "utf8_len (b # bs) = 0")
    case True
    with 2 show ?thesis by (simp add: fsencode_def fsdecode.simps)
  next
    case False
    with 2(2) have "fsencode (fsdecode (drop (utf8_len (b # bs)) (b # bs))) = drop (utf8_len (b # bs)) (b # bs)"
      by simp
    with False show ?thesis
      using append_take_drop_id[of "utf8_len (b # bs)" "b # bs"]
      by (simp add: fsencode_def fsdecode.simps del: append_take_drop_id)
  qed
qed

lemma decode_bytes: "decode bs = Inr s \<Longrightarrow> fsencode s = bs"
  by (auto simp: decode_def fsencode_fsdecode split: if_splits)

lemma encode_bytes: "encode l = Inr bs \<Longrightarrow> bs = fsencode l"
  by (auto simp: encode_def split: if_splits)

lemma concat_split_lines: "concat (split_lines s) = s"
  by (induction s) (auto split: list.splits)

lemma fsencode_concat: "fsencode (concat ls) = concat (map fsencode ls)"
  by (induction ls) (simp_all add: fsencode_def)

lemma rewrite_lines_nth:
  "rewrite_lines self assets lines = Inr out \<Longrightarrow>
   length out = length lines
   \<and> (\<forall>i < length lines. \<exists>l. rewrite_line self assets (lines ! i) = Inr l \<and> out ! i = fsencode l)"
proof (induction lines arbitrary: out)
  case Nil
  then show ?case by simp
next
  case (Cons l lines)
  from Cons.prems obtain l1 o1 os where 1: "rewrite_line self assets l = Inr l1"
    and e: "encode l1 = Inr o1"
    and 2: "rewrite_lines self assets lines = Inr os" and out: "out = o1 # os"
    by (auto split: sum.splits)
  from Cons.IH[OF 2] 1 out encode_bytes[OF e] show ?case by (auto simp: nth_Cons split: nat.splits)
qed

lemma write_file_rewritable:
  assumes wr: "write_file self fs f = Inr fs'"
    and rw: "f \<in> set (rewritables self)"
    and dst: "dst_filename self f = Inr d"
    and src: "fs_files fs (os_path_join (source_dir self) f) = Some content"
    and ne: "fs_ident fs (os_path_join (source_dir self) f) \<noteq> fs_ident fs (os_path_join (output_dir self) d)"
  shows "\<exists>lines out. file_lines content = Inr lines
           \<and> rewrite_lines self (map fst (assets_map self)) lines = Inr out
           \<and> fs_files fs' (os_path_join (output_dir self) d) = Some (concat out)"
proof -
  let ?src = "os_path_join (source_dir self) f"
  let ?dest = "os_path_join (output_dir self) d"
  from wr rw dst src obtain fs1 where o: "open_w fs ?dest = Inr fs1"
    by (auto simp: write_file_def Let_def split: sum.splits)
  then have fs1: "fs1 = fs_write fs ?dest []"
    by (auto simp: open_w_def split: if_splits)
  with ne src have r: "fs_files fs1 ?src = Some content" by (simp add: fs_write_def)
  from wr rw dst src o r obtain lines out
    where lines: "file_lines content = Inr lines"
      and out: "rewrite_lines self (map fst (assets_map self)) lines = Inr out"
      and fs': "fs' = fs_write fs1 ?dest (concat out)"
    by (auto simp: write_file_def Let_def split: sum.splits)
  from fs' have "fs_files fs' ?dest = Some (concat out)" by (simp add: fs_write_def)
  with lines out show ?thesis by blast
qed

lemma rewrite_line_untouched:
  "rewrite_line self assets line = Inr out \<Longrightarrow> \<forall>b \<in> set assets. \<not> sublist (fsdecode b) line \<Longrightarrow> out = line"
proof (induction assets arbitrary: line)
  case Nil
  then show ?case by simp
next
  case (Cons a assets)
  from Cons.prems(1) obtain n where n: "new_filename self a = Inr n"
    and rec: "rewrite_line self assets (str_replace line (fsdecode a) (fsdecode n)) = Inr out"
    by (auto split: sum.splits)
  from Cons.prems(2) have "str_replace line (fsdecode a) (fsdecode n) = line" by (simp add: str_replace_none)
  with rec Cons.IH[of line] Cons.prems(2) show ?case by simp
qed

lemma fsdecode_bytes: "UChar cs \<in> set (fsdecode bs) \<Longrightarrow> set cs \<subseteq> set bs"
proof (induction bs rule: fsdecode.induct)
  case 1
  then show ?case by (simp add: fsdecode.simps)
next
  case (2 b bs)
  show ?case
  proof (cases "utf8_len (b # bs) = 0")
    case True
    with 2 show ?thesis by (auto simp: fsdecode.simps)
  next
    case False
    with 2(3) have "cs = take (utf8_len (b # bs)) (b # bs)
       \<or> UChar cs \<in> set (fsdecode (drop (utf8_len (b # bs)) (b # bs)))"
      by (simp add: fsdecode.simps split: if_splits)
    then show ?thesis
    proof
      assume "cs = take (utf8_len (b # bs)) (b # bs)"
      then show ?thesis by (metis set_take_subset)
    next
      assume "UChar cs \<in> set (fsdecode (drop (utf8_len (b # bs)) (b # bs)))"
      with 2(2)[OF False] have "set cs \<subseteq> set (drop (utf8_len (b # bs)) (b # bs))" by simp
      then show ?thesis by (meson set_drop_subset subset_trans)
    qed
  qed
qed

lemma translate_newlines_id: "CR \<notin> set s \<Longrightarrow> translate_newlines s = s"
  by (induction s rule: translate_newlines.induct) auto

lemma no_CR: "CHR 0x0D \<notin> set bs \<Longrightarrow> decode bs = Inr s \<Longrightarrow> translate_newlines s = s"
proof -
  assume a: "CHR 0x0D \<notin> set bs" and d: "decode bs = Inr s"
  from d have s: "s = fsdecode bs" by (auto simp: decode_def split: if_splits)
  have "CR \<notin> set s"
  proof
    assume "CR \<in> set s"
    with s fsdecode_bytes[of "[CHR 0x0D]" bs] a show False by (simp add: CR_def)
  qed
  then show ?thesis by (rule translate_newlines_id)
qed


text \<open>
  C2 (as amended). For every rewritable file that is not its own destination, the
  iteration of \<open>_write_files\<close> decodes the source (it is UTF-8 when the iteration
  succeeds), turns every line end into a line feed and writes the rewritten lines. A
  line that is text with references to assets, where the path of each asset occurs
  exactly at the references to it at the moment it is substituted, is written as the same
  text with every reference replaced by the new name of its asset; this covers lines
  with no, one and several references. A file in which no asset path occurs is written
  as its text with the line ends translated, and byte for byte as the source when the
  source has no carriage return.
\<close>

theorem rewrite_completeness:
  assumes wr: "write_file self fs f = Inr fs'"
    and rw: "f \<in> set (rewritables self)"
    and dst: "dst_filename self f = Inr d"
    and src: "fs_files fs (os_path_join (source_dir self) f) = Some content"
    and ne: "fs_ident fs (os_path_join (source_dir self) f) \<noteq> fs_ident fs (os_path_join (output_dir self) d)"
    and dist: "distinct (map fst (assets_map self))"
  shows "\<exists>s lines out.
            decode content = Inr s \<and> fsencode s = content
          \<and> file_lines content = Inr lines \<and> concat lines = translate_newlines s
          \<and> (CHR 0x0D \<notin> set content \<longrightarrow> concat lines = s)
          \<and> fs_files fs' (os_path_join (output_dir self) d) = Some (concat out)
          \<and> length out = length lines
          \<and> (\<forall>i < length out. \<forall>segs.
                lines ! i = render fsdecode segs \<and> separated self [] (map fst (assets_map self)) segs
                \<longrightarrow> out ! i = fsencode (render (stage self (map fst (assets_map self))) segs))
          \<and> ((\<forall>l \<in> set lines. \<forall>b \<in> fst ` set (assets_map self). \<not> sublist (fsdecode b) l)
                \<longrightarrow> fs_files fs' (os_path_join (output_dir self) d) = Some (fsencode (concat lines)))
          \<and> ((\<forall>l \<in> set lines. \<forall>b \<in> fst ` set (assets_map self). \<not> sublist (fsdecode b) l)
              \<and> CHR 0x0D \<notin> set content
                \<longrightarrow> fs_files fs' (os_path_join (output_dir self) d) = Some content)"
proof -
  let ?assets = "map fst (assets_map self)"
  let ?dest = "os_path_join (output_dir self) d"
  from write_file_rewritable[OF wr rw dst src ne] obtain lines out
    where fl: "file_lines content = Inr lines"
      and out: "rewrite_lines self ?assets lines = Inr out"
      and w: "fs_files fs' ?dest = Some (concat out)" by blast
  from fl obtain s where s: "decode content = Inr s" and lines: "lines = split_lines (translate_newlines s)"
    by (auto simp: file_lines_def split: sum.splits)
  note nth = rewrite_lines_nth[OF out]
  have keys: "set ?assets = fst ` set (assets_map self)" by simp
  have len: "length out = length lines" using nth by simp
  have cat: "concat lines = translate_newlines s" using lines by (simp add: concat_split_lines)
  have nocr: "concat lines = s" if "CHR 0x0D \<notin> set content"
    using cat no_CR[OF that s] by simp
  have refs: "out ! i = fsencode (render (stage self ?assets) segs)"
    if i: "i < length out" and l: "lines ! i = render fsdecode segs" and sep: "separated self [] ?assets segs"
    for i segs
  proof -
    from nth i len obtain l' where r: "rewrite_line self ?assets (lines ! i) = Inr l'"
      and o: "out ! i = fsencode l'" by auto
    from r l have "rewrite_line self ?assets (render (stage self []) segs) = Inr l'"
      by (simp add: stage_Nil)
    from rewrite_line_render[OF this sep] dist have "l' = render (stage self ?assets) segs" by simp
    with o show ?thesis by simp
  qed
  have whole: "fs_files fs' ?dest = Some (fsencode (concat lines))"
    if no: "\<forall>l \<in> set lines. \<forall>b \<in> fst ` set (assets_map self). \<not> sublist (fsdecode b) l"
  proof -
    have "out ! i = fsencode (lines ! i)" if i: "i < length out" for i
    proof -
      from nth i len obtain l' where r: "rewrite_line self ?assets (lines ! i) = Inr l'"
        and o: "out ! i = fsencode l'" by auto
      from i len no keys have "\<forall>b \<in> set ?assets. \<not> sublist (fsdecode b) (lines ! i)" by simp
      from rewrite_line_untouched[OF r this] o show ?thesis by simp
    qed
    with len have "out = map fsencode lines" by (simp add: list_eq_iff_nth_eq)
    then have "concat out = fsencode (concat lines)" by (simp add: fsencode_concat)
    with w show ?thesis by simp
  qed
  have ident: "fs_files fs' ?dest = Some content"
    if no: "\<forall>l \<in> set lines. \<forall>b \<in> fst ` set (assets_map self). \<not> sublist (fsdecode b) l"
      and cr: "CHR 0x0D \<notin> set content"
    using whole[OF no] nocr[OF cr] decode_bytes[OF s] by simp
  show ?thesis
  proof (intro exI[of _ s] exI[of _ lines] exI[of _ out] conjI allI impI)
    show "decode content = Inr s" by (rule s)
    show "fsencode s = content" by (rule decode_bytes[OF s])
    show "file_lines content = Inr lines" by (rule fl)
    show "concat lines = translate_newlines s" by (rule cat)
    show "concat lines = s" if "CHR 0x0D \<notin> set content" using nocr that .
    show "fs_files fs' ?dest = Some (concat out)" by (rule w)
    show "length out = length lines" by (rule len)
    show "fs_files fs' ?dest = Some (fsencode (concat lines))"
      if "\<forall>l \<in> set lines. \<forall>b \<in> fst ` set (assets_map self). \<not> sublist (fsdecode b) l"
      using whole that .
    show "fs_files fs' ?dest = Some content"
      if "(\<forall>l \<in> set lines. \<forall>b \<in> fst ` set (assets_map self). \<not> sublist (fsdecode b) l)
              \<and> CHR 0x0D \<notin> set content"
      using ident that by blast
  next
    fix i segs
    assume "i < length out" and "lines ! i = render fsdecode segs
                \<and> separated self [] (map fst (assets_map self)) segs"
    then show "out ! i = fsencode (render (stage self (map fst (assets_map self))) segs)"
      using refs by blast
  qed
qed

text \<open>The line of \<open>index.html\<close> with its references to \<open>style.css\<close> and \<open>app.js\<close>.\<close>

lemma page_index_written:
  "write_file page_fingerprinted page_fs ''index.html''
     = Inr (projr (write_file page_fingerprinted page_fs ''index.html''))"
proof -
  have "\<not> isl (write_file page_fingerprinted page_fs ''index.html'')" by code_simp
  then show ?thesis by simp
qed

theorem rewrite_completeness_witness:
  "fs_files (projr (write_file page_fingerprinted page_fs ''index.html'')) ''out/index.html''
     = Some ''href=style.559aead08264d5795d3909718cdd05abd49572e84fe55590eef31a88a08fdffd.css src=app.df7e70e5021544f4834bbee64a9e3789febc4be81470df629cad6ddb03320a5c.js\<newline>''"
proof -
  let ?c = "''href=style.css src=app.js\<newline>''"
  have rw: "''index.html'' \<in> set (rewritables page_fingerprinted)" by code_simp
  have dst: "dst_filename page_fingerprinted ''index.html'' = Inr ''index.html''" by code_simp
  have src: "fs_files page_fs (os_path_join (source_dir page_fingerprinted) ''index.html'') = Some ?c"
    by code_simp
  have ne: "fs_ident page_fs (os_path_join (source_dir page_fingerprinted) ''index.html'')
              \<noteq> fs_ident page_fs (os_path_join (output_dir page_fingerprinted) ''index.html'')" by code_simp
  have dist: "distinct (map fst (assets_map page_fingerprinted))" by code_simp
  have dest: "os_path_join (output_dir page_fingerprinted) ''index.html'' = ''out/index.html''"
    by code_simp
  have fl: "file_lines ?c = Inr [render fsdecode page_line]" by code_simp
  have sep: "separated page_fingerprinted [] (map fst (assets_map page_fingerprinted)) page_line" by code_simp
  have res: "fsencode (render (stage page_fingerprinted (map fst (assets_map page_fingerprinted))) page_line)
     = ''href=style.559aead08264d5795d3909718cdd05abd49572e84fe55590eef31a88a08fdffd.css src=app.df7e70e5021544f4834bbee64a9e3789febc4be81470df629cad6ddb03320a5c.js\<newline>''"
    by code_simp
  from rewrite_completeness[OF page_index_written rw dst src ne dist] obtain lines out
    where l: "file_lines ?c = Inr lines"
      and w: "fs_files (projr (write_file page_fingerprinted page_fs ''index.html'')) ''out/index.html''
                = Some (concat out)"
      and len: "length out = length lines"
      and refs: "\<And>i segs. i < length out \<Longrightarrow>
                lines ! i = render fsdecode segs
                \<and> separated page_fingerprinted [] (map fst (assets_map page_fingerprinted)) segs
                \<Longrightarrow> out ! i = fsencode (render (stage page_fingerprinted (map fst (assets_map page_fingerprinted))) segs)"
    unfolding dest by blast
  from l fl have lines: "lines = [render fsdecode page_line]" by simp
  with len have l1: "length out = 1" by simp
  then have "0 < length out" by simp
  from refs[OF this, of page_line] lines sep
  have "out ! 0 = fsencode (render (stage page_fingerprinted (map fst (assets_map page_fingerprinted))) page_line)"
    by simp
  moreover from l1 have "concat out = out ! 0" by (cases out) simp_all
  ultimately show ?thesis using w res by simp
qed

text \<open>
  What the hypotheses exclude. The line ends of \<open>dos.html\<close> are rewritten though the
  file refers to no asset; \<open>latin1.html\<close> cannot be read; and when the output directory
  is the source directory under another spelling, the rewritable file is emptied and
  the copy of the other file is refused.
\<close>

lemma plain_site_written:
  "fs_files (projr (write_file plain_site plain_fs ''dos.html'')) ''out/dos.html''
     = Some ''one\<newline>two\<newline>three\<newline>''"
  "write_file plain_site plain_fs ''latin1.html'' = Inl UnicodeDecodeError"
  "fs_files (projr (write_file inplace_site plain_fs ''dos.html'')) ''site/dos.html'' = Some []"
  "write_file inplace_site plain_fs ''notes.txt'' = Inl ShutilError"
proof -
  show "fs_files (projr (write_file plain_site plain_fs ''dos.html'')) ''out/dos.html''
     = Some ''one\<newline>two\<newline>three\<newline>''" by code_simp
  have "isl (write_file plain_site plain_fs ''latin1.html'')"
    "projl (write_file plain_site plain_fs ''latin1.html'') = UnicodeDecodeError" by code_simp+
  then show "write_file plain_site plain_fs ''latin1.html'' = Inl UnicodeDecodeError"
    by (cases "write_file plain_site plain_fs ''latin1.html''") simp_all
  show "fs_files (projr (write_file inplace_site plain_fs ''dos.html'')) ''site/dos.html'' = Some []"
    by code_simp
  have "isl (write_file inplace_site plain_fs ''notes.txt'')"
    "projl (write_file inplace_site plain_fs ''notes.txt'') = ShutilError" by code_simp+
  then show "write_file inplace_site plain_fs ''notes.txt'' = Inl ShutilError"
    by (cases "write_file inplace_site plain_fs ''notes.txt''") simp_all
qed

lemma example_paths:
  "abspath ''/home/u'' ''site/app.css'' = ''/home/u/site/app.css''"
  "abspath ''/home/u'' ''site/d.css'' = ''/home/u/site/d.css''"
  "abspath ''/home/u'' ''site/ax.css'' = ''/home/u/site/ax.css''"
  "abspath ''/home/u'' ''site/x.css'' = ''/home/u/site/x.css''"
  by code_simp+

lemma suffix_run:
  "calculate_fingerprints sha256_table (fs_files suffix_fs) suffix_indexed = Inr suffix_fingerprinted"
proof -
  have j: "os_path_join ''site'' ''app.css'' = ''site/app.css''" "os_path_join ''site'' ''d.css'' = ''site/d.css''"
    by (simp_all add: os_path_join_def)
  have s: "splitext ''d.css'' = (''d'', ''.css'')" by (simp add: splitext_def)
  have b: "sha256_table ''B'' = ''df7e70e5021544f4834bbee64a9e3789febc4be81470df629cad6ddb03320a5c''"
    by (simp add: sha256_table_def)
  show ?thesis
    by (simp add: calculate_fingerprints_def suffix_indexed_def suffix_fingerprinted_def suffix_fs_def posix_fs_def
        example_paths new_optimizer_def j hashfile_default convert_filename_def splitext_examples s sha256_table_A b)
qed

text \<open>
  The output is not always the source with each occurrence replaced by the new name:
  \<open>index.html\<close> refers to \<open>app.css\<close> and does not mention \<open>d.css\<close>; the new name of
  \<open>app.css\<close> ends in \<open>d.css\<close>, and the substitution for \<open>d.css\<close> rewrites it.
\<close>

theorem later_substitution_rewrites_new_name:
  "calculate_fingerprints sha256_table (fs_files suffix_fs) suffix_indexed = Inr suffix_fingerprinted
   \<and> \<not> sublist ''d.css'' ''href=app.css\<newline>''
   \<and> new_filename suffix_fingerprinted ''app.css''
       = Inr ''app.559aead08264d5795d3909718cdd05abd49572e84fe55590eef31a88a08fdffd.css''
   \<and> written suffix_fingerprinted suffix_fs ''out/index.html''
       = Some ''href=app.559aead08264d5795d3909718cdd05abd49572e84fe55590eef31a88a08fdffd.df7e70e5021544f4834bbee64a9e3789febc4be81470df629cad6ddb03320a5c.css\<newline>''
   \<and> written suffix_fingerprinted suffix_fs ''out/index.html''
       \<noteq> Some ''href=app.559aead08264d5795d3909718cdd05abd49572e84fe55590eef31a88a08fdffd.css\<newline>''"
proof -
  have 1: "\<not> sublist ''d.css'' ''href=app.css\<newline>''" by code_simp
  have 2: "new_filename suffix_fingerprinted ''app.css''
       = Inr ''app.559aead08264d5795d3909718cdd05abd49572e84fe55590eef31a88a08fdffd.css''" by code_simp
  have 3: "written suffix_fingerprinted suffix_fs ''out/index.html''
       = Some ''href=app.559aead08264d5795d3909718cdd05abd49572e84fe55590eef31a88a08fdffd.df7e70e5021544f4834bbee64a9e3789febc4be81470df629cad6ddb03320a5c.css\<newline>''"
    by code_simp
  have 4: "written suffix_fingerprinted suffix_fs ''out/index.html''
       \<noteq> Some ''href=app.559aead08264d5795d3909718cdd05abd49572e84fe55590eef31a88a08fdffd.css\<newline>''"
    unfolding 3 by simp
  from suffix_run 1 2 3 4 show ?thesis by blast
qed

subsection \<open>The order of the substitutions\<close>

lemma index_file_distinct:
  "distinct (map fst (assets_map self)) \<Longrightarrow> distinct (map fst (assets_map (index_file rp f self)))"
  by (simp add: index_file_def Let_def distinct_update)

lemma index_dirnames_assets:
  "index_dirnames fnm cwd dirpath ds self = Inr self' \<Longrightarrow> assets_map self' = assets_map self"
proof (induction ds arbitrary: self)
  case Nil
  then show ?case by simp
next
  case (Cons d ds)
  from Cons.prems obtain rp where rp: "relpath cwd (os_path_join dirpath d) (source_dir self) = Inr rp"
    by (auto split: sum.splits)
  show ?case
  proof (cases "excluded fnm (exclude self) rp")
    case True
    with Cons rp show ?thesis by simp
  next
    case False
    with Cons.prems rp have "index_dirnames fnm cwd dirpath ds (self\<lparr>subdirs := subdirs self @ [rp]\<rparr>) = Inr self'"
      by simp
    from Cons.IH[OF this] show ?thesis by simp
  qed
qed

lemma index_fnames_distinct:
  "index_fnames fnm cwd dirpath fs self = Inr self' \<Longrightarrow> distinct (map fst (assets_map self)) \<Longrightarrow>
   distinct (map fst (assets_map self'))"
proof (induction fs arbitrary: self)
  case Nil
  then show ?case by simp
next
  case (Cons f fs)
  from Cons.prems(1) obtain rp where rp: "relpath cwd (os_path_join dirpath f) (source_dir self) = Inr rp"
    by (auto split: sum.splits)
  show ?case
  proof (cases "excluded fnm (exclude self) rp")
    case True
    with Cons rp show ?thesis by simp
  next
    case False
    with Cons.prems(1) rp have "index_fnames fnm cwd dirpath fs (index_file rp f self) = Inr self'" by simp
    from Cons.IH[OF this index_file_distinct[OF Cons.prems(2)]] show ?thesis .
  qed
qed

lemma index_walk_distinct:
  "index_walk fnm cwd w self = Inr self' \<Longrightarrow> distinct (map fst (assets_map self)) \<Longrightarrow>
   distinct (map fst (assets_map self'))"
proof (induction w arbitrary: self)
  case Nil
  then show ?case by simp
next
  case (Cons e w)
  obtain dirpath dirnames fnames where e: "e = (dirpath, dirnames, fnames)" by (cases e)
  from Cons.prems(1) e obtain s1 s2 where
    1: "index_dirnames fnm cwd dirpath dirnames self = Inr s1" and
    2: "index_fnames fnm cwd dirpath fnames s1 = Inr s2" and
    3: "index_walk fnm cwd w s2 = Inr self'"
    by (auto split: sum.splits)
  from index_dirnames_assets[OF 1] Cons.prems(2) have "distinct (map fst (assets_map s1))" by simp
  from Cons.IH[OF 3 index_fnames_distinct[OF 2 this]] show ?case .
qed

lemma index_source_dir_distinct:
  assumes "index_source_dir fnm cwd root (new_optimizer src out bucket excl) = Inr self'"
  shows "distinct (map fst (assets_map self'))" "source_dir self' = src"
proof -
  have d: "distinct (map fst (assets_map (new_optimizer src out bucket excl)))"
    by (simp add: new_optimizer_def)
  from index_walk_distinct[OF assms[unfolded index_source_dir_def] d]
  show "distinct (map fst (assets_map self'))" .
  have "no_excluded_indexed fnm (new_optimizer src out bucket excl)"
    by (simp add: no_excluded_indexed_def new_optimizer_def)
  from index_walk_clean[OF assms[unfolded index_source_dir_def] this]
  show "source_dir self' = src" by (simp add: new_optimizer_def)
qed

lemma alist_eqI:
  "map fst xs = map fst ys \<Longrightarrow> distinct (map fst xs) \<Longrightarrow>
   (\<forall>k \<in> fst ` set xs. map_of xs k = map_of ys k) \<Longrightarrow> xs = ys"
proof (induction xs arbitrary: ys)
  case Nil
  then show ?case by simp
next
  case (Cons x xs)
  from Cons.prems(1) obtain y ys' where ys: "ys = y # ys'" "fst x = fst y" "map fst xs = map fst ys'"
    by (cases ys) auto
  from Cons.prems(3) ys have "snd x = snd y" by (cases x; cases y) auto
  with ys(2) have xy: "x = y" by (simp add: prod_eq_iff)
  have "\<forall>k \<in> fst ` set xs. map_of xs k = map_of ys' k"
  proof
    fix k assume k: "k \<in> fst ` set xs"
    from Cons.prems(2) have "fst x \<notin> fst ` set xs" by simp
    with k have "k \<noteq> fst x" by blast
    with Cons.prems(3) k ys xy show "map_of xs k = map_of ys' k" by (cases x) (auto split: if_splits)
  qed
  with Cons.IH[OF ys(3)] Cons.prems(2) have "xs = ys'" by simp
  with xy ys show ?case by simp
qed

lemma rewrite_line_cong:
  "assets_map s = assets_map s' \<Longrightarrow> rewrite_line s assets line = rewrite_line s' assets line"
  by (induction assets arbitrary: line) (auto simp: new_filename_def split: sum.splits option.splits)

lemma index_file_assets:
  "assets_map (index_file rp f self) =
     (if snd (splitext f) \<in> set assets_ext then AList.update rp None (assets_map self) else assets_map self)"
  by (simp add: index_file_def Let_def)

lemma index_fnames_assets:
  "index_fnames fnm cwd dirpath fs self = Inr self' \<Longrightarrow>
   assets_map self' =
     fold (\<lambda>rp. AList.update rp None)
       (asset_relpaths fnm cwd (source_dir self) (exclude self) [(dirpath, ds, fs)]) (assets_map self)
   \<and> source_dir self' = source_dir self \<and> exclude self' = exclude self"
proof (induction fs arbitrary: self)
  case Nil
  then show ?case by (simp add: asset_relpaths_def)
next
  case (Cons f fs)
  from Cons.prems obtain rp where rp: "relpath cwd (os_path_join dirpath f) (source_dir self) = Inr rp"
    by (auto split: sum.splits)
  have unfold: "asset_relpaths fnm cwd (source_dir self) (exclude self) [(dirpath, ds, f # fs)]
      = (if \<not> excluded fnm (exclude self) rp \<and> snd (splitext f) \<in> set assets_ext then [rp] else [])
        @ asset_relpaths fnm cwd (source_dir self) (exclude self) [(dirpath, ds, fs)]"
    by (simp add: asset_relpaths_def rp)
  show ?case
  proof (cases "excluded fnm (exclude self) rp")
    case True
    with Cons.prems rp have "index_fnames fnm cwd dirpath fs self = Inr self'" by simp
    from Cons.IH[OF this] True show ?thesis unfolding unfold by simp
  next
    case False
    with Cons.prems rp have "index_fnames fnm cwd dirpath fs (index_file rp f self) = Inr self'" by simp
    from Cons.IH[OF this] False show ?thesis
      unfolding unfold by (simp add: index_file_fields index_file_assets)
  qed
qed

lemma asset_relpaths_Cons:
  "asset_relpaths fnm cwd src excl ((dirpath, ds, fs) # w) =
     asset_relpaths fnm cwd src excl [(dirpath, ds, fs)] @ asset_relpaths fnm cwd src excl w"
  by (simp add: asset_relpaths_def)

lemma index_walk_assets:
  "index_walk fnm cwd w self = Inr self' \<Longrightarrow> no_excluded_indexed fnm self \<Longrightarrow>
   assets_map self' =
     fold (\<lambda>rp. AList.update rp None)
       (asset_relpaths fnm cwd (source_dir self) (exclude self) w) (assets_map self)"
proof (induction w arbitrary: self)
  case Nil
  then show ?case by (simp add: asset_relpaths_def)
next
  case (Cons e w)
  obtain dirpath dirnames fnames where e: "e = (dirpath, dirnames, fnames)" by (cases e)
  from Cons.prems(1) e obtain s1 s2 where
    1: "index_dirnames fnm cwd dirpath dirnames self = Inr s1" and
    2: "index_fnames fnm cwd dirpath fnames s1 = Inr s2" and
    3: "index_walk fnm cwd w s2 = Inr self'"
    by (auto split: sum.splits)
  from index_dirnames_clean[OF 1 Cons.prems(2)] index_dirnames_assets[OF 1]
  have s1: "no_excluded_indexed fnm s1" "exclude s1 = exclude self" "source_dir s1 = source_dir self"
    "assets_map s1 = assets_map self" by simp_all
  from index_fnames_assets[OF 2, of dirnames] s1
  have s2: "assets_map s2 = fold (\<lambda>rp. AList.update rp None)
       (asset_relpaths fnm cwd (source_dir self) (exclude self) [(dirpath, dirnames, fnames)]) (assets_map self)"
    "source_dir s2 = source_dir self" "exclude s2 = exclude self" by simp_all
  from index_fnames_clean[OF 2 s1(1)] have c2: "no_excluded_indexed fnm s2" by simp
  from Cons.IH[OF 3 c2] s2 show ?case
    unfolding e asset_relpaths_Cons[of fnm cwd "source_dir self" "exclude self" dirpath dirnames fnames w]
    by simp
qed

lemma fold_update_keys:
  "distinct xs \<Longrightarrow> set xs \<inter> fst ` set al = {} \<Longrightarrow>
   map fst (fold (\<lambda>k. AList.update k v) xs al) = map fst al @ xs"
proof (induction xs arbitrary: al)
  case Nil
  then show ?case by simp
next
  case (Cons x xs)
  from Cons.prems have x: "x \<notin> set (map fst al)" by auto
  then have k: "map fst (AList.update x v al) = map fst al @ [x]" by (simp add: update_keys)
  have "set xs \<inter> fst ` set (AList.update x v al) = {}"
    using Cons.prems by (auto simp: keys_update)
  with Cons.IH[of "AList.update x v al"] Cons.prems(1) k show ?case by simp
qed

lemma index_source_dir_order:
  assumes "index_source_dir fnm cwd root (new_optimizer src out bucket excl) = Inr self'"
    and "distinct (asset_relpaths fnm cwd src excl (os_walk_top src root))"
  shows "map fst (assets_map self') = asset_relpaths fnm cwd src excl (os_walk_top src root)"
proof -
  let ?s = "new_optimizer src out bucket excl"
  have c: "no_excluded_indexed fnm ?s" by (simp add: no_excluded_indexed_def new_optimizer_def)
  have f: "source_dir ?s = src" "exclude ?s = excl" "assets_map ?s = []" by (simp_all add: new_optimizer_def)
  from index_walk_assets[OF assms(1)[unfolded index_source_dir_def] c]
  have "assets_map self' = fold (\<lambda>rp. AList.update rp None)
          (asset_relpaths fnm cwd src excl (os_walk_top src root)) []"
    by (simp add: f)
  with fold_update_keys[OF assms(2), of "[]" None] show ?thesis by simp
qed

lemma rewrite_lines_cong:
  "assets_map s = assets_map s' \<Longrightarrow> rewrite_lines s assets lines = rewrite_lines s' assets lines"
  by (induction lines) (simp_all add: rewrite_line_cong[of s s'] cong: sum.case_cong)

lemma rewrite_line_foldl:
  "\<forall>a \<in> set assets. new_filename self a = Inr (name a) \<Longrightarrow>
   rewrite_line self assets line
     = Inr (foldl (\<lambda>l a. str_replace l (fsdecode a) (fsdecode (name a))) line assets)"
  by (induction assets arbitrary: line) simp_all

text \<open>
  C10 (as amended). The substitutions are applied to a line one after the other, each
  to the result of the one before, in the order of the keys of the asset map; this is
  the order in which the walk of the source directory lists the assets that are not
  excluded (their relative paths being distinct), not a sorted order. The name put in
  for an asset is the one derived from the digest of its contents. For every two runs
  whose indexes hold the same assets in the same order, and in which these assets have
  the same contents, the asset maps after fingerprinting are equal and every line and
  every list of lines is rewritten to the same bytes, whatever else differs between the
  runs (the other files, the order in which they are listed, the directories).
\<close>

theorem rewrite_order_determined:
  assumes i1: "index_source_dir fnm cwd1 root1 (new_optimizer src1 out1 bucket1 excl1) = Inr s1"
    and f1: "calculate_fingerprints digest fs1 s1 = Inr s1'"
    and i2: "index_source_dir fnm cwd2 root2 (new_optimizer src2 out2 bucket2 excl2) = Inr s2"
    and f2: "calculate_fingerprints digest fs2 s2 = Inr s2'"
    and order: "map fst (assets_map s1) = map fst (assets_map s2)"
    and same: "\<forall>p \<in> fst ` set (assets_map s1). fs1 (os_path_join src1 p) = fs2 (os_path_join src2 p)"
  shows "rewrite_line s1' (map fst (assets_map s1')) line
           = Inr (foldl (substitute digest fs1 src1) line (map fst (assets_map s1')))
       \<and> (distinct (asset_relpaths fnm cwd1 src1 excl1 (os_walk_top src1 root1)) \<longrightarrow>
            map fst (assets_map s1') = asset_relpaths fnm cwd1 src1 excl1 (os_walk_top src1 root1)
            \<and> rewrite_line s1' (map fst (assets_map s1')) line
                = Inr (foldl (substitute digest fs1 src1) line
                         (asset_relpaths fnm cwd1 src1 excl1 (os_walk_top src1 root1))))
       \<and> assets_map s1' = assets_map s2'
       \<and> rewrite_line s1' (map fst (assets_map s1')) line
           = rewrite_line s2' (map fst (assets_map s2')) line
       \<and> rewrite_lines s1' (map fst (assets_map s1')) lines
           = rewrite_lines s2' (map fst (assets_map s2')) lines"
proof -
  note d1 = index_source_dir_distinct[OF i1] and d2 = index_source_dir_distinct[OF i2]
  note r1 = calculate_fingerprints_result[OF f1] and r2 = calculate_fingerprints_result[OF f2]
  have keys: "map fst (assets_map s1') = map fst (assets_map s2')"
    using r1(2) r2(2) order by simp
  have dist: "distinct (map fst (assets_map s1'))" using r1(2) d1(1) by simp
  have kset: "fst ` set (assets_map s1) = fst ` set (assets_map s2)"
    using order by (metis list.set_map)
  have vals: "\<forall>k \<in> fst ` set (assets_map s1'). map_of (assets_map s1') k = map_of (assets_map s2') k"
  proof
    fix k assume "k \<in> fst ` set (assets_map s1')"
    then have k1: "k \<in> fst ` set (assets_map s1)" using r1(2) by (metis list.set_map)
    then have k2: "k \<in> fst ` set (assets_map s2)" using kset by simp
    from r1(3)[OF k1] d1(2) obtain c1 where c1: "fs1 (os_path_join src1 k) = Some c1"
      "map_of (assets_map s1') k = Some (Some (convert_filename k (digest c1)))" by auto
    from r2(3)[OF k2] d2(2) obtain c2 where c2: "fs2 (os_path_join src2 k) = Some c2"
      "map_of (assets_map s2') k = Some (Some (convert_filename k (digest c2)))" by auto
    from same k1 c1(1) c2(1) have "c1 = c2" by auto
    with c1(2) c2(2) show "map_of (assets_map s1') k = map_of (assets_map s2') k" by simp
  qed
  from alist_eqI[OF keys dist vals] have eq: "assets_map s1' = assets_map s2'" .
  have names: "\<forall>a \<in> set (map fst (assets_map s1')).
                 new_filename s1' a = Inr (fingerprinted_name digest fs1 src1 a)"
  proof
    fix a assume "a \<in> set (map fst (assets_map s1'))"
    then have k1: "a \<in> fst ` set (assets_map s1)" using r1(2) by (metis list.set_map)
    from r1(3)[OF k1] d1(2) obtain c1 where c1: "fs1 (os_path_join src1 a) = Some c1"
      "map_of (assets_map s1') a = Some (Some (convert_filename a (digest c1)))" by auto
    then show "new_filename s1' a = Inr (fingerprinted_name digest fs1 src1 a)"
      by (simp add: new_filename_def fingerprinted_name_def)
  qed
  have fold: "rewrite_line s1' (map fst (assets_map s1')) line
           = Inr (foldl (substitute digest fs1 src1) line (map fst (assets_map s1')))"
    using rewrite_line_foldl[OF names, of line] by (simp add: substitute_def[abs_def])
  have ord: "distinct (asset_relpaths fnm cwd1 src1 excl1 (os_walk_top src1 root1)) \<longrightarrow>
            map fst (assets_map s1') = asset_relpaths fnm cwd1 src1 excl1 (os_walk_top src1 root1)"
    using index_source_dir_order[OF i1] r1(2) by simp
  have ordfold: "distinct (asset_relpaths fnm cwd1 src1 excl1 (os_walk_top src1 root1)) \<longrightarrow>
            map fst (assets_map s1') = asset_relpaths fnm cwd1 src1 excl1 (os_walk_top src1 root1)
            \<and> rewrite_line s1' (map fst (assets_map s1')) line
                = Inr (foldl (substitute digest fs1 src1) line
                         (asset_relpaths fnm cwd1 src1 excl1 (os_walk_top src1 root1)))"
    using ord fold by auto
  have l: "rewrite_line s1' (map fst (assets_map s1')) line
           = rewrite_line s2' (map fst (assets_map s2')) line"
    using rewrite_line_cong[OF eq] eq by simp
  have ls: "rewrite_lines s1' (map fst (assets_map s1')) lines
           = rewrite_lines s2' (map fst (assets_map s2')) lines"
    using rewrite_lines_cong[OF eq] eq by simp
  from fold ordfold eq l ls show ?thesis by blast
qed

text \<open>The four listings of the site with \<open>ax.css\<close> and \<open>x.css\<close>.\<close>

lemma overlap_facts:
  "os_path_join ''site'' ''ax.css'' = ''site/ax.css''"
  "os_path_join ''site'' ''x.css'' = ''site/x.css''"
  "splitext ''ax.css'' = (''ax'', ''.css'')"
  "splitext ''x.css'' = (''x'', ''.css'')"
  "sha256_table ''B'' = ''df7e70e5021544f4834bbee64a9e3789febc4be81470df629cad6ddb03320a5c''"
  by (simp_all add: os_path_join_def splitext_def sha256_table_def)

lemma overlap_run1:
  "calculate_fingerprints sha256_table (fs_files overlap_fs) overlap_indexed1 = Inr overlap_fingerprinted1"
  by (simp add: calculate_fingerprints_def overlap_indexed1_def overlap_fingerprinted1_def overlap_fs_def posix_fs_def
      example_paths new_optimizer_def overlap_facts hashfile_default convert_filename_def sha256_table_A)

lemma overlap_run2:
  "calculate_fingerprints sha256_table (fs_files overlap_fs) overlap_indexed2 = Inr overlap_fingerprinted2"
  by (simp add: calculate_fingerprints_def overlap_indexed2_def overlap_fingerprinted2_def overlap_fs_def posix_fs_def
      example_paths new_optimizer_def overlap_facts hashfile_default convert_filename_def sha256_table_A)

lemma overlap_run3:
  "calculate_fingerprints sha256_table (fs_files overlap_fs) overlap_indexed3 = Inr overlap_fingerprinted3"
  by (simp add: calculate_fingerprints_def overlap_indexed3_def overlap_fingerprinted3_def overlap_fs_def posix_fs_def
      example_paths new_optimizer_def overlap_facts hashfile_default convert_filename_def sha256_table_A)

lemma overlap_run4:
  "calculate_fingerprints sha256_table (fs_files overlap_fs) overlap_indexed4 = Inr overlap_fingerprinted4"
  by (simp add: calculate_fingerprints_def overlap_indexed4_def overlap_fingerprinted4_def overlap_fs_def posix_fs_def
      example_paths new_optimizer_def overlap_facts hashfile_default convert_filename_def sha256_table_A)

lemma overlap_index1:
  "index_source_dir fnmatch ''/home/u'' (Some overlap_tree1)
     (new_optimizer ''site'' ''out'' ''example.com'' []) = Inr overlap_indexed1"
  by code_simp

lemma overlap_index2:
  "index_source_dir fnmatch ''/home/u'' (Some overlap_tree2)
     (new_optimizer ''site'' ''out'' ''example.com'' []) = Inr overlap_indexed2"
  by code_simp

lemma overlap_index3:
  "index_source_dir fnmatch ''/home/u'' (Some overlap_tree3)
     (new_optimizer ''site'' ''out'' ''example.com'' []) = Inr overlap_indexed3"
  by code_simp

lemma overlap_index4:
  "index_source_dir fnmatch ''/home/u'' (Some overlap_tree4)
     (new_optimizer ''site'' ''out'' ''example.com'' []) = Inr overlap_indexed4"
  by code_simp

text \<open>
  The second and the fourth listing differ in the place of \<open>index.html\<close> only. Both
  list \<open>x.css\<close> before \<open>ax.css\<close>, which is not the sorted order, and this is the order
  of the substitutions: that of \<open>x.css\<close> rewrites the reference to \<open>ax.css\<close>, and the
  line is rewritten to the same characters in both runs.
\<close>

theorem rewrite_order_determined_witness:
  "files overlap_indexed2 \<noteq> files overlap_indexed4
   \<and> map fst (assets_map overlap_fingerprinted2) = [''x.css'', ''ax.css'']
   \<and> rewrite_line overlap_fingerprinted2 (map fst (assets_map overlap_fingerprinted2))
        (fsdecode ''href=ax.css\<newline>'')
       = Inr (fsdecode ''href=ax.df7e70e5021544f4834bbee64a9e3789febc4be81470df629cad6ddb03320a5c.css\<newline>'')
   \<and> rewrite_line overlap_fingerprinted4 (map fst (assets_map overlap_fingerprinted4))
        (fsdecode ''href=ax.css\<newline>'')
       = Inr (fsdecode ''href=ax.df7e70e5021544f4834bbee64a9e3789febc4be81470df629cad6ddb03320a5c.css\<newline>'')"
proof -
  let ?line = "fsdecode ''href=ax.css\<newline>''"
  have order: "map fst (assets_map overlap_indexed2) = map fst (assets_map overlap_indexed4)"
    by (simp add: overlap_indexed2_def overlap_indexed4_def)
  have same: "\<forall>p \<in> fst ` set (assets_map overlap_indexed2).
      fs_files overlap_fs (os_path_join ''site'' p) = fs_files overlap_fs (os_path_join ''site'' p)"
    by simp
  have dist: "distinct (asset_relpaths fnmatch ''/home/u'' ''site'' [] (os_walk_top ''site'' (Some overlap_tree2)))"
    by code_simp
  have walk: "asset_relpaths fnmatch ''/home/u'' ''site'' [] (os_walk_top ''site'' (Some overlap_tree2))
                = [''x.css'', ''ax.css'']" by code_simp
  have n1: "fingerprinted_name sha256_table (fs_files overlap_fs) ''site'' ''x.css''
              = ''x.df7e70e5021544f4834bbee64a9e3789febc4be81470df629cad6ddb03320a5c.css''"
    by (simp add: fingerprinted_name_def overlap_fs_def posix_fs_def example_paths overlap_facts
        convert_filename_def)
  have n2: "fingerprinted_name sha256_table (fs_files overlap_fs) ''site'' ''ax.css''
              = ''ax.559aead08264d5795d3909718cdd05abd49572e84fe55590eef31a88a08fdffd.css''"
    by (simp add: fingerprinted_name_def overlap_fs_def posix_fs_def example_paths overlap_facts
        convert_filename_def sha256_table_A)
  have r1: "str_replace ?line (fsdecode ''x.css'')
              (fsdecode ''x.df7e70e5021544f4834bbee64a9e3789febc4be81470df629cad6ddb03320a5c.css'')
            = fsdecode ''href=ax.df7e70e5021544f4834bbee64a9e3789febc4be81470df629cad6ddb03320a5c.css\<newline>''"
    by code_simp
  have r2: "str_replace (fsdecode ''href=ax.df7e70e5021544f4834bbee64a9e3789febc4be81470df629cad6ddb03320a5c.css\<newline>'')
              (fsdecode ''ax.css'')
              (fsdecode ''ax.559aead08264d5795d3909718cdd05abd49572e84fe55590eef31a88a08fdffd.css'')
            = fsdecode ''href=ax.df7e70e5021544f4834bbee64a9e3789febc4be81470df629cad6ddb03320a5c.css\<newline>''"
    by code_simp
  have "files overlap_indexed2 \<noteq> files overlap_indexed4"
    by (simp add: overlap_indexed2_def overlap_indexed4_def)
  moreover
  note run = rewrite_order_determined[OF overlap_index2 overlap_run2 overlap_index4 overlap_run4 order same,
      where line = ?line and lines = "[]"]
  from run dist have "map fst (assets_map overlap_fingerprinted2)
      = asset_relpaths fnmatch ''/home/u'' ''site'' [] (os_walk_top ''site'' (Some overlap_tree2))"
    by blast
  then have keys: "map fst (assets_map overlap_fingerprinted2) = [''x.css'', ''ax.css'']"
    unfolding walk .
  from run dist have "rewrite_line overlap_fingerprinted2 (map fst (assets_map overlap_fingerprinted2)) ?line
       = Inr (foldl (substitute sha256_table (fs_files overlap_fs) ''site'') ?line
           (asset_relpaths fnmatch ''/home/u'' ''site'' [] (os_walk_top ''site'' (Some overlap_tree2))))"
    by blast
  then have fold: "rewrite_line overlap_fingerprinted2 (map fst (assets_map overlap_fingerprinted2)) ?line
       = Inr (foldl (substitute sha256_table (fs_files overlap_fs) ''site'') ?line [''x.css'', ''ax.css''])"
    unfolding walk .
  from run have eq: "rewrite_line overlap_fingerprinted2 (map fst (assets_map overlap_fingerprinted2)) ?line
       = rewrite_line overlap_fingerprinted4 (map fst (assets_map overlap_fingerprinted4)) ?line"
    by blast
  have "foldl (substitute sha256_table (fs_files overlap_fs) ''site'') ?line [''x.css'', ''ax.css'']
      = fsdecode ''href=ax.df7e70e5021544f4834bbee64a9e3789febc4be81470df629cad6ddb03320a5c.css\<newline>''"
    by (simp add: substitute_def n1 n2 r1 r2)
  with fold have "rewrite_line overlap_fingerprinted2 (map fst (assets_map overlap_fingerprinted2)) ?line
       = Inr (fsdecode ''href=ax.df7e70e5021544f4834bbee64a9e3789febc4be81470df629cad6ddb03320a5c.css\<newline>'')"
    by simp
  ultimately show ?thesis using keys eq by simp
qed

text \<open>
  The first and the second listing are of the same directory, with the same files, and
  give different bytes for \<open>index.html\<close>: \<open>x.css\<close> is a substring of \<open>ax.css\<close>, and
  the asset that is listed first is substituted first.
\<close>

theorem listing_order_changes_output:
  "index_source_dir fnmatch ''/home/u'' (Some overlap_tree1)
     (new_optimizer ''site'' ''out'' ''example.com'' []) = Inr overlap_indexed1
   \<and> calculate_fingerprints sha256_table (fs_files overlap_fs) overlap_indexed1 = Inr overlap_fingerprinted1
   \<and> written overlap_fingerprinted1 overlap_fs ''out/index.html''
       = Some ''href=ax.559aead08264d5795d3909718cdd05abd49572e84fe55590eef31a88a08fdffd.css\<newline>''
   \<and> index_source_dir fnmatch ''/home/u'' (Some overlap_tree2)
     (new_optimizer ''site'' ''out'' ''example.com'' []) = Inr overlap_indexed2
   \<and> calculate_fingerprints sha256_table (fs_files overlap_fs) overlap_indexed2 = Inr overlap_fingerprinted2
   \<and> written overlap_fingerprinted2 overlap_fs ''out/index.html''
       = Some ''href=ax.df7e70e5021544f4834bbee64a9e3789febc4be81470df629cad6ddb03320a5c.css\<newline>''
   \<and> written overlap_fingerprinted1 overlap_fs ''out/index.html''
       \<noteq> written overlap_fingerprinted2 overlap_fs ''out/index.html''"
proof -
  have 1: "written overlap_fingerprinted1 overlap_fs ''out/index.html''
       = Some ''href=ax.559aead08264d5795d3909718cdd05abd49572e84fe55590eef31a88a08fdffd.css\<newline>''"
    by code_simp
  have 2: "written overlap_fingerprinted2 overlap_fs ''out/index.html''
       = Some ''href=ax.df7e70e5021544f4834bbee64a9e3789febc4be81470df629cad6ddb03320a5c.css\<newline>''"
    by code_simp
  have 3: "written overlap_fingerprinted1 overlap_fs ''out/index.html''
       \<noteq> written overlap_fingerprinted2 overlap_fs ''out/index.html''"
    unfolding 1 2 by simp
  from overlap_index1 overlap_run1 1 overlap_index2 overlap_run2 2 3 show ?thesis by blast
qed

subsection \<open>Uploading\<close>

lemma upload_all_append:
  "upload_all self cwd fs (xs @ ys) st =
     (case upload_all self cwd fs xs st of Inl e \<Rightarrow> Inl e | Inr st1 \<Rightarrow> upload_all self cwd fs ys st1)"
  by (induction xs arbitrary: st) (auto split: sum.splits)

lemma upload_fnames_all:
  "upload_fnames self cwd fs dirpath fnames st = upload_all self cwd fs (map (\<lambda>f. (dirpath, f)) fnames) st"
  by (induction fnames arbitrary: st) (auto split: sum.splits)

lemma upload_walk_all:
  "upload_walk self cwd fs w st = upload_all self cwd fs (walk_files w) st"
proof (induction w arbitrary: st)
  case Nil
  then show ?case by (simp add: walk_files_def)
next
  case (Cons e w)
  obtain dirpath dirnames fnames where e: "e = (dirpath, dirnames, fnames)" by (cases e)
  have wf: "walk_files (e # w) = map (\<lambda>f. (dirpath, f)) fnames @ walk_files w"
    by (simp add: walk_files_def e)
  show ?case
    unfolding wf upload_all_append using Cons.IH
    by (simp add: e upload_fnames_all split: sum.splits)
qed

lemma upload_file_effect:
  assumes "upload_file self cwd fs dirpath f (b, t) = Inr (b', t')"
  shows "\<exists>key. relpath cwd (os_path_join dirpath f) (output_dir self) = Inr key
           \<and> t' = remove1 key t
           \<and> fst ` set (objects b') = insert key (fst ` set (objects b))
           \<and> delete_requests b' = delete_requests b
           \<and> put_requests b' = put_requests b @
                (if is_asset f \<and> key \<in> fst ` set (objects b) then [] else [(key, cache_headers (is_asset f))])
           \<and> (distinct (map fst (objects b)) \<longrightarrow> distinct (map fst (objects b')))"
proof -
  from assms obtain key where key: "relpath cwd (os_path_join dirpath f) (output_dir self) = Inr key"
    by (auto simp: upload_file_def Let_def split: sum.splits)
  have ex: "(map_of (objects b) key = None) = (key \<notin> fst ` set (objects b))"
    by (simp add: map_of_eq_None_iff)
  show ?thesis
  proof (cases "is_asset f \<and> key \<in> fst ` set (objects b)")
    case True
    with assms key ex have "b' = b" "t' = remove1 key t"
      by (auto simp: upload_file_def Let_def)
    with True key show ?thesis by auto
  next
    case False
    with ex have c: "map_of (objects b) key = None \<or> \<not> is_asset f" by auto
    with assms key obtain content where
      b': "b' = b\<lparr>objects := AList.update key \<lparr>obj_data = content, obj_headers = cache_headers (is_asset f)\<rparr> (objects b),
                 put_requests := put_requests b @ [(key, cache_headers (is_asset f))]\<rparr>"
      and t': "t' = remove1 key t"
      by (auto simp: upload_file_def Let_def set_contents_from_filename_def split: sum.splits option.splits)
    from b' have "fst ` set (objects b') = insert key (fst ` set (objects b))"
      by (simp add: keys_update)
    moreover from b' have "distinct (map fst (objects b)) \<longrightarrow> distinct (map fst (objects b'))"
      by (simp add: distinct_update)
    ultimately show ?thesis using key t' b' False by auto
  qed
qed

lemma spec_uploads_insert:
  "key \<notin> fst ` set kfs \<Longrightarrow> spec_uploads (insert key remote) kfs = spec_uploads remote kfs"
proof -
  assume "key \<notin> fst ` set kfs"
  then have "filter (\<lambda>kf. if is_asset (snd kf) then fst kf \<notin> insert key remote else True) kfs
           = filter (\<lambda>kf. if is_asset (snd kf) then fst kf \<notin> remote else True) kfs"
    by (intro filter_cong refl) auto
  then show ?thesis by (simp add: spec_uploads_def)
qed

lemma upload_all_effect:
  assumes "upload_all self cwd fs dfs (b, t) = Inr (b', t')"
  shows "fst ` set (objects b') = fst ` set (objects b) \<union> fst ` set (keyed_files cwd (output_dir self) dfs)
       \<and> t' = fold remove1 (map fst (keyed_files cwd (output_dir self) dfs)) t
       \<and> delete_requests b' = delete_requests b
       \<and> (distinct (map fst (keyed_files cwd (output_dir self) dfs)) \<longrightarrow>
            put_requests b' = put_requests b @
              spec_uploads (fst ` set (objects b)) (keyed_files cwd (output_dir self) dfs))
       \<and> (distinct (map fst (objects b)) \<longrightarrow> distinct (map fst (objects b')))"
  using assms
proof (induction dfs arbitrary: b t)
  case Nil
  then show ?case by (simp add: keyed_files_def spec_uploads_def)
next
  case (Cons df dfs)
  obtain dirpath f where df: "df = (dirpath, f)" by (cases df)
  from Cons.prems df obtain b1 t1 where
    1: "upload_file self cwd fs dirpath f (b, t) = Inr (b1, t1)" and
    2: "upload_all self cwd fs dfs (b1, t1) = Inr (b', t')"
    by (auto split: sum.splits)
  from upload_file_effect[OF 1] obtain key where
    key: "relpath cwd (os_path_join dirpath f) (output_dir self) = Inr key"
    and t1: "t1 = remove1 key t"
    and k1: "fst ` set (objects b1) = insert key (fst ` set (objects b))"
    and d1: "delete_requests b1 = delete_requests b"
    and p1: "put_requests b1 = put_requests b @
                (if is_asset f \<and> key \<in> fst ` set (objects b) then [] else [(key, cache_headers (is_asset f))])"
    and dist1: "distinct (map fst (objects b)) \<longrightarrow> distinct (map fst (objects b1))"
    by blast
  let ?rest = "keyed_files cwd (output_dir self) dfs"
  have kf: "keyed_files cwd (output_dir self) (df # dfs) = (key, f) # ?rest"
    by (simp add: keyed_files_def df key)
  note IH = Cons.IH[OF 2]
  have a: "fst ` set (objects b') = fst ` set (objects b) \<union> fst ` set ((key, f) # ?rest)"
    using IH k1 by auto
  have b: "t' = fold remove1 (map fst ((key, f) # ?rest)) t"
    using IH t1 by simp
  have c: "delete_requests b' = delete_requests b" using IH d1 by simp
  have d: "put_requests b' = put_requests b @ spec_uploads (fst ` set (objects b)) ((key, f) # ?rest)"
    if dist: "distinct (map fst ((key, f) # ?rest))"
  proof -
    from dist have nk: "key \<notin> fst ` set ?rest" and dr: "distinct (map fst ?rest)" by auto
    from IH dr have "put_requests b' = put_requests b1 @ spec_uploads (fst ` set (objects b1)) ?rest"
      by simp
    also have "spec_uploads (fst ` set (objects b1)) ?rest = spec_uploads (fst ` set (objects b)) ?rest"
      unfolding k1 using nk by (rule spec_uploads_insert)
    finally show ?thesis using p1 by (simp add: spec_uploads_def cache_headers_def)
  qed
  have e: "distinct (map fst (objects b)) \<longrightarrow> distinct (map fst (objects b'))"
    using IH dist1 by simp
  show ?case unfolding kf using a b c d e by blast
qed

lemma fold_remove1_filter:
  "distinct t \<Longrightarrow> fold remove1 ks t = filter (\<lambda>k. k \<notin> set ks) t"
proof (induction ks arbitrary: t)
  case Nil
  then show ?case by simp
next
  case (Cons k ks)
  have r: "remove1 k t = filter (\<lambda>x. x \<noteq> k) t"
    using Cons.prems by (simp add: distinct_remove1_removeAll removeAll_filter_not_eq) metis
  have "distinct (remove1 k t)" using Cons.prems by simp
  from Cons.IH[OF this] r show ?case by (simp add: conj_commute)
qed

lemma upload_to_bucket_effect:
  assumes up: "upload_to_bucket self cwd fs out_root s3 = Inr bucket'"
    and b: "s3 (destination_bucket self) = Some bucket"
  shows "\<exists>b1 t1. upload_all self cwd fs (walk_files (os_walk_top (output_dir self) out_root))
                   (bucket, map fst (objects bucket)) = Inr (b1, t1)
               \<and> bucket' = delete_keys b1 t1"
  using up b
  by (auto simp: upload_to_bucket_def Let_def upload_walk_all split: sum.splits)

text \<open>
  C7. When the synchronisation succeeds, the uploads it has made are, in the order of
  the walk of the output directory, exactly those of the specification: every file
  that is no asset, and every asset for which the bucket held no object under the
  file's key (its path relative to the output directory); an asset is uploaded with
  \<open>Cache-Control: public, max-age=31556926\<close>, any other file with
  \<open>Cache-Control: no-cache, max-age=0\<close>. The files of a directory tree have distinct keys.
\<close>

theorem upload_decision:
  assumes "upload_to_bucket self cwd fs out_root s3 = Inr bucket'"
    and "s3 (destination_bucket self) = Some bucket"
    and "distinct (map fst (local_files self cwd out_root))"
  shows "put_requests bucket' =
           put_requests bucket @ spec_uploads (fst ` set (objects bucket)) (local_files self cwd out_root)"
proof -
  from upload_to_bucket_effect[OF assms(1,2)] obtain b1 t1 where
    all: "upload_all self cwd fs (walk_files (os_walk_top (output_dir self) out_root))
            (bucket, map fst (objects bucket)) = Inr (b1, t1)"
    and b': "bucket' = delete_keys b1 t1" by blast
  from upload_all_effect[OF all] assms(3)
  have "put_requests b1 = put_requests bucket @
          spec_uploads (fst ` set (objects bucket)) (local_files self cwd out_root)"
    by (simp add: local_files_def)
  with b' show ?thesis by (simp add: delete_keys_def)
qed

text \<open>
  C8. When the synchronisation succeeds, the keys given to \<open>delete_keys\<close> are the keys
  the bucket held before that are the relative path of no local output file, so no key
  of a local file is deleted; afterwards the keys of the bucket are exactly the
  relative paths of the local output files. The keys of a bucket are distinct.
\<close>

theorem stale_deletion:
  assumes "upload_to_bucket self cwd fs out_root s3 = Inr bucket'"
    and "s3 (destination_bucket self) = Some bucket"
    and "distinct (map fst (objects bucket))"
  shows "delete_requests bucket' =
           delete_requests bucket @
           filter (\<lambda>k. k \<notin> fst ` set (local_files self cwd out_root)) (map fst (objects bucket))
       \<and> fst ` set (objects bucket') = fst ` set (local_files self cwd out_root)"
proof -
  let ?local = "local_files self cwd out_root"
  from upload_to_bucket_effect[OF assms(1,2)] obtain b1 t1 where
    all: "upload_all self cwd fs (walk_files (os_walk_top (output_dir self) out_root))
            (bucket, map fst (objects bucket)) = Inr (b1, t1)"
    and b': "bucket' = delete_keys b1 t1" by blast
  from upload_all_effect[OF all]
  have keys1: "fst ` set (objects b1) = fst ` set (objects bucket) \<union> fst ` set ?local"
    and t1: "t1 = fold remove1 (map fst ?local) (map fst (objects bucket))"
    and d1: "delete_requests b1 = delete_requests bucket"
    by (simp_all add: local_files_def)
  from t1 assms(3) have t1': "t1 = filter (\<lambda>k. k \<notin> fst ` set ?local) (map fst (objects bucket))"
    by (simp add: fold_remove1_filter)
  have del: "delete_requests bucket' = delete_requests bucket @ t1"
    using b' d1 by (simp add: delete_keys_def)
  have "fst ` set (objects bucket') = fst ` set (objects b1) - set t1"
    unfolding b' delete_keys_def by auto
  also have "\<dots> = fst ` set ?local"
    unfolding keys1 t1' by auto
  finally show ?thesis using del t1' by simp
qed


text \<open>
  The bucket holds \<open>index.html\<close> and the style sheet: \<open>index.html\<close> is uploaded again,
  the new asset is uploaded, the style sheet is not.
\<close>

lemma sync_run:
  "upload_to_bucket (new_optimizer ''site'' ''out'' ''example.com'' []) ''/home/u'' sync_fs
      (Some sync_tree) [''example.com'' \<mapsto> sync_bucket]
   = Inr (projr (upload_to_bucket (new_optimizer ''site'' ''out'' ''example.com'' []) ''/home/u'' sync_fs
      (Some sync_tree) [''example.com'' \<mapsto> sync_bucket]))"
proof -
  have "\<not> isl (upload_to_bucket (new_optimizer ''site'' ''out'' ''example.com'' []) ''/home/u'' sync_fs
      (Some sync_tree) [''example.com'' \<mapsto> sync_bucket])" by code_simp
  then show ?thesis by simp
qed

theorem upload_decision_witness:
  "put_requests (projr (upload_to_bucket (new_optimizer ''site'' ''out'' ''example.com'' []) ''/home/u''
      sync_fs (Some sync_tree) [''example.com'' \<mapsto> sync_bucket]))
   = [(''index.html'', [(''Cache-Control'', ''no-cache, max-age=0'')]),
      (''app.df7e70e5021544f4834bbee64a9e3789febc4be81470df629cad6ddb03320a5c.css'',
       [(''Cache-Control'', ''public, max-age=31556926'')])]"
proof -
  let ?self = "new_optimizer ''site'' ''out'' ''example.com'' []"
  have b: "[''example.com'' \<mapsto> sync_bucket] (destination_bucket ?self) = Some sync_bucket"
    by (simp add: new_optimizer_def)
  have d: "distinct (map fst (local_files ?self ''/home/u'' (Some sync_tree)))" by code_simp
  have p: "put_requests sync_bucket = []" by (simp add: sync_bucket_def)
  have e: "spec_uploads (fst ` set (objects sync_bucket)) (local_files ?self ''/home/u'' (Some sync_tree))
     = [(''index.html'', [(''Cache-Control'', ''no-cache, max-age=0'')]),
        (''app.df7e70e5021544f4834bbee64a9e3789febc4be81470df629cad6ddb03320a5c.css'',
         [(''Cache-Control'', ''public, max-age=31556926'')])]"
    by code_simp
  from upload_decision[OF sync_run b d] show ?thesis unfolding p e by simp
qed

text \<open>
  The bucket holds the old style sheet only: it is deleted, and the bucket ends with
  the new one.
\<close>

lemma stale_run:
  "upload_to_bucket (new_optimizer ''site'' ''out'' ''example.com'' []) ''/home/u'' stale_fs
      (Some stale_tree) [''example.com'' \<mapsto> stale_bucket]
   = Inr (projr (upload_to_bucket (new_optimizer ''site'' ''out'' ''example.com'' []) ''/home/u'' stale_fs
      (Some stale_tree) [''example.com'' \<mapsto> stale_bucket]))"
proof -
  have "\<not> isl (upload_to_bucket (new_optimizer ''site'' ''out'' ''example.com'' []) ''/home/u'' stale_fs
      (Some stale_tree) [''example.com'' \<mapsto> stale_bucket])" by code_simp
  then show ?thesis by simp
qed

theorem stale_deletion_witness:
  "delete_requests (projr (upload_to_bucket (new_optimizer ''site'' ''out'' ''example.com'' []) ''/home/u''
      stale_fs (Some stale_tree) [''example.com'' \<mapsto> stale_bucket]))
     = [''old.559aead08264d5795d3909718cdd05abd49572e84fe55590eef31a88a08fdffd.css'']
   \<and> fst ` set (objects (projr (upload_to_bucket (new_optimizer ''site'' ''out'' ''example.com'' [])
        ''/home/u'' stale_fs (Some stale_tree) [''example.com'' \<mapsto> stale_bucket])))
     = {''old.df7e70e5021544f4834bbee64a9e3789febc4be81470df629cad6ddb03320a5c.css''}"
proof -
  let ?self = "new_optimizer ''site'' ''out'' ''example.com'' []"
  have b: "[''example.com'' \<mapsto> stale_bucket] (destination_bucket ?self) = Some stale_bucket"
    by (simp add: new_optimizer_def)
  have d: "distinct (map fst (objects stale_bucket))" by (simp add: stale_bucket_def)
  have l: "local_files ?self ''/home/u'' (Some stale_tree)
     = [(''old.df7e70e5021544f4834bbee64a9e3789febc4be81470df629cad6ddb03320a5c.css'',
         ''old.df7e70e5021544f4834bbee64a9e3789febc4be81470df629cad6ddb03320a5c.css'')]"
    by code_simp
  from stale_deletion[OF stale_run b d] show ?thesis
    unfolding l by (simp add: stale_bucket_def)
qed

end
